theory Spec2Isabelle
  imports Complex_Main "HOL-Library.Product_Lexorder" "HOL-Library.Multiset"
begin

section \<open>Data model\<close>

text \<open>
  A Python \<open>str\<close> is a sequence of Unicode code points; a code point is a natural number.
  Scores, distances and weights are PostgreSQL \<open>float8\<close> / Python \<open>float\<close> values; they are
  modelled as real numbers (rounding, infinities and NaN are outside the model).
  Integers (\<open>k\<close>, \<open>per_vac\<close>, \<open>candidates\<close>, \<open>max_quote\<close>, ids) are Python's unbounded ints.
\<close>

type_synonym ustring = "nat list"

definition ustr :: "string \<Rightarrow> ustring" where
  "ustr s = map of_char s"

text \<open>Table \<open>vacancies\<close>: \<open>vacancy_id\<close> is its key (the loaders upsert
  \<open>on conflict (vacancy_id)\<close>), so the table is a map from the id to the other columns.\<close>

record vacancy =
  v_name :: "ustring option"
  v_employer_name :: "ustring option"
  v_area_name :: "ustring option"
  v_url :: "ustring option"

text \<open>Table \<open>vacancy_chunks\<close>, seen from one query: \<open>c_dist\<close> is the value of
  \<open>c.embedding <=> q_vec\<close> (\<open>None\<close> when the embedding is null) and \<open>c_sim\<close> the value of
  \<open>similarity(lower(c.text), lower(query))\<close>; both are computed by the database extensions
  (pgvector, pg\_trgm).\<close>

record chunk =
  c_vacancy_id :: int
  c_chunk_no :: int
  c_text :: ustring
  c_dist :: "real option"
  c_sim :: real

record database =
  pg_trgm :: bool
  vacancies :: "int \<rightharpoonup> vacancy"
  vacancy_chunks :: "chunk list"

text \<open>Rows of the common table expression \<open>scored\<close>, and of \<open>ranked\<close> (\<open>select *, rn, best_score\<close>).
  The four columns \<open>name, employer_name, area_name, url\<close> travel together as \<open>r_meta\<close>.
  The final \<open>select\<close> returns the same twelve columns as \<open>ranked\<close>, with \<open>best_score\<close> taken
  from \<open>top_vacs\<close>.\<close>

record scored_row =
  r_vacancy_id :: int
  r_meta :: vacancy
  r_chunk_no :: int
  r_text :: ustring
  r_dist :: real
  r_kw_sim :: real
  r_score :: real

record ranked_row = scored_row +
  r_rn :: int
  r_best_score :: real

text \<open>The dictionaries built by \<open>retrieve_vacancies\<close>.\<close>

record evidence =
  ev_chunk_no :: int
  ev_text :: ustring
  ev_dist :: real
  ev_kw_sim :: real
  ev_score :: real
  ev_rank_in_vacancy :: int

record item =
  it_vacancy_id :: int
  it_meta :: vacancy
  it_best_score :: real
  it_evidence :: "evidence list"

record response =
  resp_query :: ustring
  resp_hybrid_used :: bool
  resp_kw_weight_used :: real
  resp_k :: int
  resp_per_vac :: int
  resp_results :: "item list"

datatype error =
  NumericValueOutOfRange  \<comment> \<open>PostgreSQL: \<open>bigint out of range\<close>, raised by psycopg\<close>
| LimitNegative  \<comment> \<open>PostgreSQL: \<open>LIMIT must not be negative\<close>, raised by psycopg\<close>
| KeyError

section \<open>The SQL queries\<close>

text \<open>
  SQL leaves the order of rows with equal sort keys open. Each \<open>order by\<close> is a stable sort
  applied after the rows have been put in the order of a tie-break function, which stands for
  whatever order the executor happens to produce: every admissible outcome of \<open>order by\<close> on
  distinct rows is obtained for some tie-break function (\<open>order_by_complete\<close> below; rows of
  \<open>vacancy_chunks\<close> differ in their key \<open>(vacancy_id, chunk_no)\<close>), and the results below hold
  for all tie-break functions.

  The planner also chooses which input of the final join the executor reads first: the rows
  of \<open>ranked r\<close> with \<open>rn <= per_vac\<close>, or \<open>top_vacs t\<close>. When the input read first is empty, an
  inner join has no row and the other input is never run.
\<close>

datatype join_side = RankedSide | TopVacsSide

record planner =
  tie_scored :: "scored_row \<Rightarrow> nat"
  tie_window :: "scored_row \<Rightarrow> nat"
  tie_top_vacs :: "int \<times> vacancy \<times> real \<Rightarrow> nat"
  tie_final :: "ranked_row \<Rightarrow> nat"
  join_first :: join_side

definition order_by :: "('a \<Rightarrow> nat) \<Rightarrow> ('a \<Rightarrow> 'k::linorder) \<Rightarrow> 'a list \<Rightarrow> 'a list" where
  "order_by tie key rows = sort_key key (sort_key tie rows)"

text \<open>The count of a \<open>limit\<close> is a \<open>bigint\<close>. A Python int outside that range is sent as a
  \<open>numeric\<close>, and its cast to \<open>bigint\<close> fails when the statement is planned, before any row is
  read.\<close>

definition in_bigint :: "int \<Rightarrow> bool" where
  "in_bigint n = (- (2 ^ 63) \<le> n \<and> n < 2 ^ 63)"

text \<open>A \<open>limit\<close> node, when the executor runs it, on the rows of its input: a negative count
  is the error \<open>LIMIT must not be negative\<close>. A \<open>limit\<close> that is never run raises nothing
  (see \<open>sql_v2\<close>).\<close>

definition limit_node :: "int \<Rightarrow> 'a list \<Rightarrow> error + 'a list" where
  "limit_node n rows = (if n < 0 then Inl LimitNegative else Inr (take (nat n) rows))"

text \<open>\<open>from vacancy_chunks c join vacancies v on v.vacancy_id = c.vacancy_id
  where c.embedding is not null\<close>, with the select list of \<open>scored\<close>. The two statements differ
  in the columns \<open>kw_sim\<close> and \<open>score\<close> only, given here by \<open>cols\<close>.\<close>

definition with_trgm_cols :: "real \<Rightarrow> chunk \<Rightarrow> real \<Rightarrow> real \<times> real" where
  "with_trgm_cols kw_weight c d = (c_sim c, d - kw_weight * c_sim c)"

definition no_trgm_cols :: "chunk \<Rightarrow> real \<Rightarrow> real \<times> real" where
  "no_trgm_cols c d = (0, d)"

definition scored_select :: "(chunk \<Rightarrow> real \<Rightarrow> real \<times> real) \<Rightarrow> database \<Rightarrow> scored_row list" where
  "scored_select cols db =
     concat (map (\<lambda>c.
       case (vacancies db (c_vacancy_id c), c_dist c) of
         (Some v, Some d) \<Rightarrow>
           [\<lparr>r_vacancy_id = c_vacancy_id c, r_meta = v, r_chunk_no = c_chunk_no c,
             r_text = c_text c, r_dist = d, r_kw_sim = fst (cols c d), r_score = snd (cols c d)\<rparr>]
       | _ \<Rightarrow> []) (vacancy_chunks db))"

definition scored :: "planner \<Rightarrow> (chunk \<Rightarrow> real \<Rightarrow> real \<times> real) \<Rightarrow> database \<Rightarrow> int
    \<Rightarrow> error + scored_row list" where
  "scored pl cols db candidates =
     limit_node candidates (order_by (tie_scored pl) r_dist (scored_select cols db))"

text \<open>\<open>ranked\<close> is \<open>select *, row_number() over (partition by vacancy_id order by score asc) as rn,
  min(score) over (partition by vacancy_id) as best_score from scored\<close>.
  \<open>extend_row\<close> adds the two columns to a row; \<open>window_partition\<close> is the partition of one
  \<open>vacancy_id\<close> in the order of the window; in \<open>number_partition\<close>, \<open>row_number()\<close> counts
  from 1 and \<open>min(score)\<close> is taken over the whole partition.\<close>

definition extend_row :: "scored_row \<Rightarrow> int \<Rightarrow> real \<Rightarrow> ranked_row" where
  "extend_row r rn best_score =
     \<lparr>r_vacancy_id = r_vacancy_id r, r_meta = r_meta r, r_chunk_no = r_chunk_no r,
      r_text = r_text r, r_dist = r_dist r, r_kw_sim = r_kw_sim r, r_score = r_score r,
      r_rn = rn, r_best_score = best_score\<rparr>"

definition window_partition :: "planner \<Rightarrow> scored_row list \<Rightarrow> int \<Rightarrow> scored_row list" where
  "window_partition pl sc v =
     order_by (tie_window pl) r_score (filter (\<lambda>r. r_vacancy_id r = v) sc)"

definition number_partition :: "scored_row list \<Rightarrow> ranked_row list" where
  "number_partition part =
     (case part of
        [] \<Rightarrow> []
      | p # ps \<Rightarrow>
          map (\<lambda>(i, r). extend_row r (int i) (fold min (map r_score ps) (r_score p)))
              (enumerate 1 part))"

definition ranked :: "planner \<Rightarrow> scored_row list \<Rightarrow> ranked_row list" where
  "ranked pl sc =
     concat (map (\<lambda>v. number_partition (window_partition pl sc v))
                 (remdups (map r_vacancy_id sc)))"

definition top_vacs :: "planner \<Rightarrow> ranked_row list \<Rightarrow> int \<Rightarrow> error + (int \<times> vacancy \<times> real) list" where
  "top_vacs pl rk k =
     limit_node k (order_by (tie_top_vacs pl) (\<lambda>(v, m, b). b)
                    (remdups (map (\<lambda>r. (r_vacancy_id r, r_meta r, r_best_score r)) rk)))"

definition final_select :: "planner \<Rightarrow> ranked_row list \<Rightarrow> (int \<times> vacancy \<times> real) list \<Rightarrow> int
    \<Rightarrow> ranked_row list" where
  "final_select pl rk tops per_vac =
     order_by (tie_final pl) (\<lambda>r. (r_best_score r, r_rn r))
       (concat (map (\<lambda>r. concat (map (\<lambda>(v, m, b).
                        if r_vacancy_id r = v \<and> r_rn r \<le> per_vac
                        then [r\<lparr>r_best_score := b\<rparr>] else []) tops)) rk))"

text \<open>\<open>from ranked r ... where r.rn <= per_vac\<close>: the input of the final join on the side of
  \<open>ranked\<close>.\<close>

definition ranked_side :: "ranked_row list \<Rightarrow> int \<Rightarrow> ranked_row list" where
  "ranked_side rk per_vac = filter (\<lambda>r. r_rn r \<le> per_vac) rk"

text \<open>
  The whole statement. The counts \<open>candidates\<close> and \<open>k\<close> are cast to \<open>bigint\<close> first. Then:
  \<^item> if the executor reads the side of \<open>ranked\<close> first, \<open>scored\<close> (with its \<open>limit candidates\<close>)
    and \<open>ranked\<close> are computed; if no row has \<open>rn <= per_vac\<close> the result is empty and
    \<open>top_vacs\<close> (with its \<open>limit k\<close>) is never run;
  \<^item> if it reads \<open>top_vacs\<close> first, \<open>limit k\<close> runs: a negative \<open>k\<close> is an error, and for
    \<open>k = 0\<close> the limit node returns no row without reading its input, so that the result
    is empty and \<open>scored\<close> is never run; for \<open>k > 0\<close> it reads \<open>ranked\<close>, which runs \<open>scored\<close>.
\<close>

definition sql_v2 :: "planner \<Rightarrow> (chunk \<Rightarrow> real \<Rightarrow> real \<times> real) \<Rightarrow> database \<Rightarrow> int \<Rightarrow> int \<Rightarrow> int
    \<Rightarrow> error + ranked_row list" where
  "sql_v2 pl cols db candidates k per_vac =
     (if \<not> in_bigint candidates \<or> \<not> in_bigint k then Inl NumericValueOutOfRange
      else case join_first pl of
        RankedSide \<Rightarrow>
          (case scored pl cols db candidates of
             Inl e \<Rightarrow> Inl e
           | Inr sc \<Rightarrow>
               if ranked_side (ranked pl sc) per_vac = [] then Inr []
               else (case top_vacs pl (ranked pl sc) k of
                       Inl e \<Rightarrow> Inl e
                     | Inr tops \<Rightarrow> Inr (final_select pl (ranked pl sc) tops per_vac)))
      | TopVacsSide \<Rightarrow>
          (if k < 0 then Inl LimitNegative
           else if k = 0 then Inr []
           else (case scored pl cols db candidates of
                   Inl e \<Rightarrow> Inl e
                 | Inr sc \<Rightarrow>
                     (case top_vacs pl (ranked pl sc) k of
                        Inl e \<Rightarrow> Inl e
                      | Inr tops \<Rightarrow> Inr (final_select pl (ranked pl sc) tops per_vac)))))"

definition SQL_V2_WITH_TRGM :: "planner \<Rightarrow> database \<Rightarrow> real \<Rightarrow> int \<Rightarrow> int \<Rightarrow> int
    \<Rightarrow> error + ranked_row list" where
  "SQL_V2_WITH_TRGM pl db kw_weight candidates k per_vac =
     sql_v2 pl (with_trgm_cols kw_weight) db candidates k per_vac"

definition SQL_V2_NO_TRGM :: "planner \<Rightarrow> database \<Rightarrow> int \<Rightarrow> int \<Rightarrow> int \<Rightarrow> error + ranked_row list" where
  "SQL_V2_NO_TRGM pl db candidates k per_vac = sql_v2 pl no_trgm_cols db candidates k per_vac"

section \<open>Retrieval\<close>

definition has_pg_trgm :: "database \<Rightarrow> bool" where
  "has_pg_trgm db = pg_trgm db"

text \<open>The body of the loop \<open>for r in rows\<close>: \<open>vac_order\<close> and \<open>vac_map\<close> are the state.\<close>

definition add_row :: "ranked_row \<Rightarrow> int list \<times> (int \<rightharpoonup> item) \<Rightarrow> int list \<times> (int \<rightharpoonup> item)" where
  "add_row r st =
     (let vac_order = fst st; vac_map = snd st; vac_id = r_vacancy_id r;
          it = (case vac_map vac_id of
                  None \<Rightarrow> \<lparr>it_vacancy_id = vac_id, it_meta = r_meta r,
                            it_best_score = r_best_score r, it_evidence = []\<rparr>
                | Some old \<Rightarrow> old);
          ev = \<lparr>ev_chunk_no = r_chunk_no r, ev_text = r_text r, ev_dist = r_dist r,
                ev_kw_sim = r_kw_sim r, ev_score = r_score r, ev_rank_in_vacancy = r_rn r\<rparr>
      in ((if vac_map vac_id = None then vac_order @ [vac_id] else vac_order),
          vac_map(vac_id \<mapsto> it\<lparr>it_evidence := it_evidence it @ [ev]\<rparr>)))"

fun group_rows :: "ranked_row list \<Rightarrow> int list \<times> (int \<rightharpoonup> item) \<Rightarrow> int list \<times> (int \<rightharpoonup> item)" where
  "group_rows [] st = st"
| "group_rows (r # rows) st = group_rows rows (add_row r st)"

text \<open>\<open>[x for x in vac_order if not (x in seen or seen.add(x))]\<close>\<close>

fun unique_seen :: "'a set \<Rightarrow> 'a list \<Rightarrow> 'a list" where
  "unique_seen seen [] = []"
| "unique_seen seen (x # xs) =
     (if x \<in> seen then unique_seen seen xs else x # unique_seen (insert x seen) xs)"

definition retrieve_vacancies :: "planner \<Rightarrow> database \<Rightarrow> int \<Rightarrow> int \<Rightarrow> int \<Rightarrow> real
    \<Rightarrow> error + (int list \<times> (int \<rightharpoonup> item) \<times> bool \<times> real)" where
  "retrieve_vacancies pl db k per_vac candidates kw_weight0 =
     (let trgm = has_pg_trgm db;
          kw_weight = (if \<not> trgm then 0 else kw_weight0)
      in case (if trgm \<and> kw_weight > 0
               then SQL_V2_WITH_TRGM pl db kw_weight candidates k per_vac
               else SQL_V2_NO_TRGM pl db candidates k per_vac) of
           Inl e \<Rightarrow> Inl e
         | Inr rows \<Rightarrow>
             (let st = group_rows rows ([], Map.empty)
              in Inr (unique_seen {} (fst st), snd st, trgm, kw_weight)))"

section \<open>Text utilities\<close>

text \<open>
  The Unicode tables of the Python runtime are not part of the repository. The ASCII range is
  written out; beyond it the tables are parameters:
  \<^item> \<open>u_alnum\<close>: the alphanumeric code points (\<open>\w\<close> and \<open>\b\<close> of \<open>re\<close> on \<open>str\<close>);
  \<^item> \<open>u_space\<close>: the whitespace code points (\<open>\s\<close> and \<open>str.strip\<close>);
  \<^item> \<open>u_lower\<close>: \<open>str.lower\<close> on a string that is not pure ASCII;
  \<^item> \<open>u_ieq\<close>: whether a literal pattern character matches a text character under
    \<open>re.IGNORECASE\<close> when one of them is not ASCII;
  \<^item> \<open>u_token\<close>: whether a code point outside ASCII and outside the Cyrillic block
    \<open>U+0410..U+044F\<close> is matched by the class \<open>[a-z\<dots>0-9\+\#\.]\<close> under \<open>re.IGNORECASE\<close>.

  \<open>set_order\<close> stands for the iteration order of a Python \<open>set\<close> of strings, which depends on
  the hash seed of the process: the set is iterated by ascending \<open>set_order\<close>.
\<close>

record runtime =
  u_alnum :: "nat \<Rightarrow> bool"
  u_space :: "nat \<Rightarrow> bool"
  u_lower :: "ustring \<Rightarrow> ustring"
  u_ieq :: "nat \<Rightarrow> nat \<Rightarrow> bool"
  u_token :: "nat \<Rightarrow> bool"
  set_order :: "ustring \<Rightarrow> nat"

definition ascii_lower :: "nat \<Rightarrow> nat" where
  "ascii_lower c = (if 65 \<le> c \<and> c \<le> 90 then c + 32 else c)"

definition py_lower :: "runtime \<Rightarrow> ustring \<Rightarrow> ustring" where
  "py_lower rt s = (if list_all (\<lambda>c. c < 128) s then map ascii_lower s else u_lower rt s)"

definition is_word :: "runtime \<Rightarrow> nat \<Rightarrow> bool" where
  "is_word rt c =
     (if c < 128
      then (48 \<le> c \<and> c \<le> 57) \<or> (65 \<le> c \<and> c \<le> 90) \<or> c = 95 \<or> (97 \<le> c \<and> c \<le> 122)
      else u_alnum rt c)"

definition is_space :: "runtime \<Rightarrow> nat \<Rightarrow> bool" where
  "is_space rt c =
     (if c < 128 then (9 \<le> c \<and> c \<le> 13) \<or> (28 \<le> c \<and> c \<le> 32) else u_space rt c)"

definition ieq :: "runtime \<Rightarrow> nat \<Rightarrow> nat \<Rightarrow> bool" where
  "ieq rt p c = (if p < 128 \<and> c < 128 then ascii_lower p = ascii_lower c else u_ieq rt p c)"

text \<open>\<open>normalize_ws\<close>: \<open>re.sub(r"\s+", " ", s).strip()\<close>. The flag of \<open>collapse_ws\<close> says
  that the previous character was whitespace, so the current run has been replaced already.\<close>

fun collapse_ws :: "runtime \<Rightarrow> bool \<Rightarrow> ustring \<Rightarrow> ustring" where
  "collapse_ws rt in_run [] = []"
| "collapse_ws rt in_run (c # cs) =
     (if is_space rt c
      then (if in_run then collapse_ws rt True cs else 32 # collapse_ws rt True cs)
      else c # collapse_ws rt False cs)"

definition strip :: "runtime \<Rightarrow> ustring \<Rightarrow> ustring" where
  "strip rt s = rev (dropWhile (is_space rt) (rev (dropWhile (is_space rt) s)))"

definition normalize_ws :: "runtime \<Rightarrow> ustring \<Rightarrow> ustring" where
  "normalize_ws rt s = strip rt (collapse_ws rt False s)"

subsection \<open>The patterns \<open>\b literal \b\<close> under \<open>re.IGNORECASE\<close>\<close>

text \<open>A position of the text is given by the character before it (\<open>None\<close> at the start) and
  the rest of the text. \<open>\b\<close> holds where exactly one of the two neighbours is a word character.\<close>

definition word_at :: "runtime \<Rightarrow> nat option \<Rightarrow> bool" where
  "word_at rt x = (case x of None \<Rightarrow> False | Some c \<Rightarrow> is_word rt c)"

definition boundary :: "runtime \<Rightarrow> nat option \<Rightarrow> nat option \<Rightarrow> bool" where
  "boundary rt before after = (word_at rt before \<noteq> word_at rt after)"

definition next_char :: "ustring \<Rightarrow> nat option" where
  "next_char t = (case t of [] \<Rightarrow> None | c # _ \<Rightarrow> Some c)"

definition last_char :: "nat option \<Rightarrow> ustring \<Rightarrow> nat option" where
  "last_char prev seg = (if seg = [] then prev else Some (last seg))"

fun imatch :: "runtime \<Rightarrow> ustring \<Rightarrow> ustring \<Rightarrow> bool" where
  "imatch rt [] t = True"
| "imatch rt (p # ps) [] = False"
| "imatch rt (p # ps) (c # cs) = (ieq rt p c \<and> imatch rt ps cs)"

definition match_at :: "runtime \<Rightarrow> ustring \<Rightarrow> nat option \<Rightarrow> ustring \<Rightarrow> bool" where
  "match_at rt lit prev t =
     (boundary rt prev (next_char t) \<and> imatch rt lit t \<and>
      boundary rt (last_char prev (take (length lit) t)) (next_char (drop (length lit) t)))"

text \<open>\<open>re.search\<close>: is there a match at some position.\<close>

fun re_search :: "runtime \<Rightarrow> ustring \<Rightarrow> nat option \<Rightarrow> ustring \<Rightarrow> bool" where
  "re_search rt lit prev [] = match_at rt lit prev []"
| "re_search rt lit prev (c # cs) = (match_at rt lit prev (c # cs) \<or> re_search rt lit (Some c) cs)"

text \<open>\<open>re.sub(pattern, r"[\1]", text)\<close>: the leftmost matches, not overlapping, each wrapped in
  brackets; the search goes on behind a match. An empty literal matches the empty string at
  every word boundary.\<close>

function re_sub :: "runtime \<Rightarrow> ustring \<Rightarrow> nat option \<Rightarrow> ustring \<Rightarrow> ustring" where
  "re_sub rt lit prev [] = (if match_at rt lit prev [] then [91, 93] else [])"
| "re_sub rt lit prev (c # cs) =
     (if match_at rt lit prev (c # cs)
      then (if lit = []
            then 91 # 93 # c # re_sub rt lit (Some c) cs
            else 91 # take (length lit) (c # cs) @
                 93 # re_sub rt lit (Some (last (take (length lit) (c # cs))))
                        (drop (length lit) (c # cs)))
      else c # re_sub rt lit (Some c) cs)"
  by pat_completeness auto
termination
  by (relation "measure (\<lambda>(rt, lit, prev, t). length t)") auto

subsection \<open>Keywords and technology terms\<close>

definition RU_STOP :: "ustring list" where
  "RU_STOP = [
    [1080], [1074], [1074, 1086], [1085, 1072], [1087, 1086], [1082], [1082, 1086],
    [1080, 1079], [1091], [1079, 1072], [1076, 1083, 1103], [1087, 1088, 1086],
    [1087, 1086, 1076], [1085, 1072, 1076], [1089], [1089, 1086], [1086], [1086, 1073],
    [1086, 1090], [1076, 1086], [1087, 1088, 1080], [1082, 1072, 1082], [1072], [1085, 1086],
    [1080, 1083, 1080], [1095, 1090, 1086], [1101, 1090, 1086], [1084, 1099], [1074, 1099],
    [1086, 1085, 1080], [1086, 1085], [1086, 1085, 1072], [1086, 1085, 1086], [1103],
    [1090, 1099], [1077, 1075, 1086], [1077, 1077], [1080, 1093], [1085, 1072, 1096],
    [1074, 1072, 1096], [1090, 1088, 1077, 1073, 1091, 1077, 1090, 1089, 1103],
    [1085, 1091, 1078, 1077, 1085], [1085, 1091, 1078, 1085, 1072],
    [1085, 1091, 1078, 1085, 1099], [1080, 1097, 1077, 1084],
    [1088, 1072, 1073, 1086, 1090, 1072], [1074, 1072, 1082, 1072, 1085, 1089, 1080, 1103],
    [1089, 1090, 1072, 1078, 1080, 1088, 1086, 1074, 1082, 1072], ustr ''intern'',
    ustr ''internship'', ustr ''junior'', ustr ''middle'', ustr ''senior'']"

definition EN_STOP :: "ustring list" where
  "EN_STOP = map ustr [
    ''and'', ''or'', ''the'', ''a'', ''an'', ''to'', ''for'', ''of'', ''in'', ''on'', ''with'',
    ''from'', ''as'', ''is'', ''are'', ''be'', ''this'', ''that'',
    ''job'', ''vacancy'', ''needed'', ''looking'']"

text \<open>The class \<open>[a-z\<dots>0-9\+\#\.]\<close> (Latin and Cyrillic small letters, digits, plus, hash,
  dot) under \<open>re.IGNORECASE\<close>.\<close>

definition token_char :: "runtime \<Rightarrow> nat \<Rightarrow> bool" where
  "token_char rt c =
     (if c < 128
      then (97 \<le> c \<and> c \<le> 122) \<or> (65 \<le> c \<and> c \<le> 90) \<or> (48 \<le> c \<and> c \<le> 57) \<or>
           c = 43 \<or> c = 35 \<or> c = 46
      else if 1040 \<le> c \<and> c \<le> 1103 then True
      else u_token rt c)"

text \<open>\<open>re.findall\<close> of the class repeated \<open>{3,}\<close>: the maximal runs of at least three
  characters; \<open>cur\<close> is the run read so far.\<close>

fun findall_tokens :: "runtime \<Rightarrow> ustring \<Rightarrow> ustring \<Rightarrow> ustring list" where
  "findall_tokens rt cur [] = (if 3 \<le> length cur then [cur] else [])"
| "findall_tokens rt cur (c # cs) =
     (if token_char rt c then findall_tokens rt (cur @ [c]) cs
      else (if 3 \<le> length cur then [cur] else []) @ findall_tokens rt [] cs)"

text \<open>\<open>Counter(tokens).most_common(n)\<close>: the distinct tokens in the order of their first
  occurrence, sorted by descending count (stably), the first \<open>n\<close> of them.\<close>

definition most_common :: "int \<Rightarrow> 'a list \<Rightarrow> 'a list" where
  "most_common n tokens =
     take (nat n) (sort_key (\<lambda>w. - int (count_list tokens w)) (unique_seen {} tokens))"

definition extract_query_keywords :: "runtime \<Rightarrow> ustring \<Rightarrow> int \<Rightarrow> ustring list" where
  "extract_query_keywords rt query max_words =
     (let q = py_lower rt query;
          tokens = findall_tokens rt [] q;
          tokens = filter (\<lambda>t. t \<notin> set RU_STOP \<and> t \<notin> set EN_STOP) tokens
      in most_common max_words tokens)"

text \<open>\<open>TECH_PATTERNS\<close>: every pattern of the source is \<open>\b literal \b\<close> and is given here by its
  literal (in \<open>ci\/cd\<close> the backslash escapes the slash). The term of a pattern, the pattern
  with \<open>\b\<close> and backslashes removed, is the literal itself.\<close>

definition TECH_PATTERNS :: "ustring list" where
  "TECH_PATTERNS = map ustr [
    ''java'', ''spring'', ''spring boot'', ''python'', ''go'', ''javascript'', ''typescript'',
    ''sql'', ''postgres'', ''postgresql'', ''clickhouse'', ''mysql'', ''mongodb'',
    ''airflow'', ''kafka'', ''redis'', ''kubernetes'', ''docker'', ''terraform'',
    ''hadoop'', ''spark'', ''flink'', ''databricks'',
    ''etl'', ''elt'', ''dwh'', ''mlops'', ''ci/cd'']"

definition extract_tech_terms :: "runtime \<Rightarrow> ustring \<Rightarrow> ustring list" where
  "extract_tech_terms rt text =
     (let t = py_lower rt text;
          found = filter (\<lambda>p. re_search rt p None t) TECH_PATTERNS
      in unique_seen {} found)"

text \<open>\<open>sorted(set(keywords), key=len, reverse=True)\<close>: a stable sort of the set's iteration
  order by descending length.\<close>

definition sorted_keywords :: "runtime \<Rightarrow> ustring list \<Rightarrow> ustring list" where
  "sorted_keywords rt keywords =
     sort_key (\<lambda>kw. - int (length kw)) (sort_key (set_order rt) (remdups keywords))"

definition highlight :: "runtime \<Rightarrow> ustring \<Rightarrow> ustring list \<Rightarrow> ustring" where
  "highlight rt text keywords =
     (if keywords = [] then text
      else fold (\<lambda>kw out. re_sub rt kw None out) (sorted_keywords rt keywords) text)"

section \<open>The endpoint \<open>/search\<close>\<close>

text \<open>The parameters arrive validated by their types only (\<open>q\<close> has at least two
  characters; \<open>k\<close>, \<open>per_vac\<close>, \<open>candidates\<close> and \<open>max_quote\<close> are any integers, \<open>kw_weight\<close>
  any number).\<close>

text \<open>\<open>txt[:max_quote]\<close>: a negative bound counts from the end.\<close>

definition slice_to :: "int \<Rightarrow> 'a list \<Rightarrow> 'a list" where
  "slice_to m t = (if 0 \<le> m then take (nat m) t else take (nat (int (length t) + m)) t)"

definition format_text :: "runtime \<Rightarrow> ustring list \<Rightarrow> int \<Rightarrow> bool \<Rightarrow> ustring \<Rightarrow> ustring" where
  "format_text rt keywords max_quote do_highlight text =
     (let txt = normalize_ws rt text;
          txt = (if do_highlight then highlight rt txt keywords else txt)
      in if int (length txt) > max_quote then slice_to max_quote txt @ ustr ''...'' else txt)"

text \<open>\<open>out = dict(item); out["evidence"] = evidence_out\<close>\<close>

definition format_item :: "runtime \<Rightarrow> ustring list \<Rightarrow> int \<Rightarrow> bool \<Rightarrow> item \<Rightarrow> item" where
  "format_item rt keywords max_quote do_highlight it =
     it\<lparr>it_evidence :=
          map (\<lambda>ev. ev\<lparr>ev_text := format_text rt keywords max_quote do_highlight (ev_text ev)\<rparr>)
              (it_evidence it)\<rparr>"

text \<open>The loop \<open>for vid in vac_order\<close>; \<open>vac_map[vid]\<close> raises \<open>KeyError\<close> on a missing key.\<close>

fun build_results :: "runtime \<Rightarrow> ustring list \<Rightarrow> int \<Rightarrow> bool \<Rightarrow> (int \<rightharpoonup> item) \<Rightarrow> int list
    \<Rightarrow> error + item list" where
  "build_results rt keywords max_quote do_highlight vac_map [] = Inr []"
| "build_results rt keywords max_quote do_highlight vac_map (vid # vids) =
     (case vac_map vid of
        None \<Rightarrow> Inl KeyError
      | Some it \<Rightarrow>
          (case build_results rt keywords max_quote do_highlight vac_map vids of
             Inl e \<Rightarrow> Inl e
           | Inr outs \<Rightarrow> Inr (format_item rt keywords max_quote do_highlight it # outs)))"

definition search :: "runtime \<Rightarrow> planner \<Rightarrow> database \<Rightarrow> ustring \<Rightarrow> int \<Rightarrow> int \<Rightarrow> int \<Rightarrow> real \<Rightarrow> int
    \<Rightarrow> bool \<Rightarrow> error + response" where
  "search rt pl db q k per_vac candidates kw_weight max_quote do_highlight =
     (case retrieve_vacancies pl db k per_vac candidates kw_weight of
        Inl e \<Rightarrow> Inl e
      | Inr (vac_order, vac_map, trgm, kw_used) \<Rightarrow>
          (case build_results rt (extract_query_keywords rt q 12) max_quote do_highlight
                  vac_map vac_order of
             Inl e \<Rightarrow> Inl e
           | Inr results \<Rightarrow>
               Inr \<lparr>resp_query = q, resp_hybrid_used = (trgm \<and> kw_used > 0),
                    resp_kw_weight_used = kw_used, resp_k = k, resp_per_vac = per_vac,
                    resp_results = results\<rparr>))"

section \<open>Auxiliary notions for the proofs\<close>

text \<open>The select list that \<open>retrieve_vacancies\<close> ends up using.\<close>

definition used_cols :: "database \<Rightarrow> real \<Rightarrow> chunk \<Rightarrow> real \<Rightarrow> real \<times> real" where
  "used_cols db kw_weight =
     (if has_pg_trgm db \<and> kw_weight > 0 then with_trgm_cols kw_weight else no_trgm_cols)"

text \<open>The evidence entry made from a row, and the dictionary that the loop over the rows
  builds, in closed form.\<close>

definition ev_of :: "ranked_row \<Rightarrow> evidence" where
  "ev_of r = \<lparr>ev_chunk_no = r_chunk_no r, ev_text = r_text r, ev_dist = r_dist r,
      ev_kw_sim = r_kw_sim r, ev_score = r_score r, ev_rank_in_vacancy = r_rn r\<rparr>"

definition grouped :: "ranked_row list \<Rightarrow> int \<rightharpoonup> item" where
  "grouped rows v =
     (case filter (\<lambda>r. r_vacancy_id r = v) rows of
        [] \<Rightarrow> None
      | r # rs \<Rightarrow> Some \<lparr>it_vacancy_id = v, it_meta = r_meta r, it_best_score = r_best_score r,
                         it_evidence = map ev_of (r # rs)\<rparr>)"


text \<open>The response of \<open>search\<close> for the rows that the statement returned.\<close>

definition response_of :: "runtime \<Rightarrow> database \<Rightarrow> ustring \<Rightarrow> int \<Rightarrow> int \<Rightarrow> real \<Rightarrow> int \<Rightarrow> bool
    \<Rightarrow> ranked_row list \<Rightarrow> response" where
  "response_of rt db q k per_vac kw_weight max_quote do_highlight rows =
     \<lparr>resp_query = q, resp_hybrid_used = (pg_trgm db \<and> kw_weight > 0),
      resp_kw_weight_used = (if pg_trgm db then kw_weight else 0), resp_k = k,
      resp_per_vac = per_vac,
      resp_results =
        map (\<lambda>v. format_item rt (extract_query_keywords rt q 12) max_quote do_highlight
                   (the (grouped rows v)))
            (unique_seen {} (map r_vacancy_id rows))\<rparr>"




section \<open>Example data\<close>

text \<open>A runtime with no alphanumeric, whitespace or cased character beyond ASCII, and an
  executor that never reorders rows with equal keys and reads the side of \<open>ranked\<close> first.\<close>

definition rt_ascii :: runtime where
  "rt_ascii = \<lparr>u_alnum = (\<lambda>c. False), u_space = (\<lambda>c. False), u_lower = (\<lambda>s. s),
     u_ieq = (\<lambda>p c. p = c), u_token = (\<lambda>c. False), set_order = (\<lambda>s. 0)\<rparr>"

definition pl_stable :: planner where
  "pl_stable = \<lparr>tie_scored = (\<lambda>r. 0), tie_window = (\<lambda>r. 0), tie_top_vacs = (\<lambda>t. 0),
     tie_final = (\<lambda>r. 0), join_first = RankedSide\<rparr>"

definition vacancy_named :: "string \<Rightarrow> vacancy" where
  "vacancy_named n = \<lparr>v_name = Some (ustr n), v_employer_name = None, v_area_name = None,
     v_url = None\<rparr>"

text \<open>Two fragments of vacancy A (id 1) at distances 0.10 and 0.30 and one fragment of
  vacancy B (id 2) at distance 0.05.\<close>

definition scenario_db :: "bool \<Rightarrow> database" where
  "scenario_db trgm =
     \<lparr>pg_trgm = trgm,
      vacancies = [1 \<mapsto> vacancy_named ''A'', 2 \<mapsto> vacancy_named ''B''],
      vacancy_chunks = [
        \<lparr>c_vacancy_id = 1, c_chunk_no = 0, c_text = ustr ''Python  developer'',
          c_dist = Some (10 / 100), c_sim = 1 / 2\<rparr>,
        \<lparr>c_vacancy_id = 1, c_chunk_no = 1, c_text = ustr ''SQL'',
          c_dist = Some (30 / 100), c_sim = 0\<rparr>,
        \<lparr>c_vacancy_id = 2, c_chunk_no = 0, c_text = ustr ''Go developer'',
          c_dist = Some (5 / 100), c_sim = 1 / 4\<rparr>]\<rparr>"

text \<open>Vacancy X (id 2) has the nearest fragment, but with weight \<open>1/2\<close> its best score 0 comes
  from its far fragment and equals the score of the only fragment of vacancy Y (id 1).\<close>

definition tie_db :: database where
  "tie_db =
     \<lparr>pg_trgm = True,
      vacancies = [1 \<mapsto> vacancy_named ''Y'', 2 \<mapsto> vacancy_named ''X''],
      vacancy_chunks = [
        \<lparr>c_vacancy_id = 2, c_chunk_no = 0, c_text = ustr ''x0'',
          c_dist = Some (1 / 8), c_sim = 0\<rparr>,
        \<lparr>c_vacancy_id = 1, c_chunk_no = 0, c_text = ustr ''y0'',
          c_dist = Some (1 / 4), c_sim = 1 / 2\<rparr>,
        \<lparr>c_vacancy_id = 2, c_chunk_no = 1, c_text = ustr ''x1'',
          c_dist = Some (1 / 2), c_sim = 1\<rparr>]\<rparr>"

text \<open>The responses expected for \<open>scenario_db\<close> with \<open>k = 2\<close>, \<open>per_vac = 2\<close> and the query
  \<open>go\<close> (too short to give a keyword): on the distance-only path, and with weight \<open>1/2\<close>.\<close>

definition scenario_ev_A0 :: evidence where
  "scenario_ev_A0 = \<lparr>ev_chunk_no = 0, ev_text = ustr ''Python developer'', ev_dist = 1 / 10,
     ev_kw_sim = 0, ev_score = 1 / 10, ev_rank_in_vacancy = 1\<rparr>"

definition scenario_item_A :: item where
  "scenario_item_A =
     \<lparr>it_vacancy_id = 1, it_meta = vacancy_named ''A'', it_best_score = 1 / 10,
      it_evidence =
        [scenario_ev_A0,
         \<lparr>ev_chunk_no = 1, ev_text = ustr ''SQL'', ev_dist = 3 / 10, ev_kw_sim = 0,
           ev_score = 3 / 10, ev_rank_in_vacancy = 2\<rparr>]\<rparr>"

definition scenario_item_B :: item where
  "scenario_item_B =
     \<lparr>it_vacancy_id = 2, it_meta = vacancy_named ''B'', it_best_score = 1 / 20,
      it_evidence =
        [\<lparr>ev_chunk_no = 0, ev_text = ustr ''Go developer'', ev_dist = 1 / 20, ev_kw_sim = 0,
           ev_score = 1 / 20, ev_rank_in_vacancy = 1\<rparr>]\<rparr>"

definition scenario_plain_resp :: "real \<Rightarrow> response" where
  "scenario_plain_resp weight_used =
     \<lparr>resp_query = ustr ''go'', resp_hybrid_used = False, resp_kw_weight_used = weight_used,
      resp_k = 2, resp_per_vac = 2, resp_results = [scenario_item_B, scenario_item_A]\<rparr>"

definition scenario_hybrid_item_A :: item where
  "scenario_hybrid_item_A =
     \<lparr>it_vacancy_id = 1, it_meta = vacancy_named ''A'', it_best_score = - 3 / 20,
      it_evidence =
        [\<lparr>ev_chunk_no = 0, ev_text = ustr ''Python developer'', ev_dist = 1 / 10,
           ev_kw_sim = 1 / 2, ev_score = - 3 / 20, ev_rank_in_vacancy = 1\<rparr>,
         \<lparr>ev_chunk_no = 1, ev_text = ustr ''SQL'', ev_dist = 3 / 10, ev_kw_sim = 0,
           ev_score = 3 / 10, ev_rank_in_vacancy = 2\<rparr>]\<rparr>"

definition scenario_hybrid_resp :: response where
  "scenario_hybrid_resp =
     \<lparr>resp_query = ustr ''go'', resp_hybrid_used = True, resp_kw_weight_used = 1 / 2,
      resp_k = 2, resp_per_vac = 2,
      resp_results =
        [scenario_hybrid_item_A,
         \<lparr>it_vacancy_id = 2, it_meta = vacancy_named ''B'', it_best_score = - 3 / 40,
           it_evidence =
             [\<lparr>ev_chunk_no = 0, ev_text = ustr ''Go developer'', ev_dist = 1 / 20,
                ev_kw_sim = 1 / 4, ev_score = - 3 / 40, ev_rank_in_vacancy = 1\<rparr>]\<rparr>]\<rparr>"




section \<open>Properties of the queries and of the grouping loop\<close>

lemma unique_seen_set: "set (unique_seen S xs) = set xs - S"
  by (induction xs arbitrary: S) auto

lemma unique_seen_distinct: "distinct (unique_seen S xs)"
  by (induction xs arbitrary: S) (auto simp: unique_seen_set)

lemma unique_seen_snoc:
  "unique_seen S (xs @ [x]) = unique_seen S xs @ (if x \<in> S \<union> set xs then [] else [x])"
  by (induction xs arbitrary: S) auto

lemma unique_seen_id: "distinct xs \<Longrightarrow> set xs \<inter> S = {} \<Longrightarrow> unique_seen S xs = xs"
  by (induction xs arbitrary: S) auto

lemma group_rows_snoc: "group_rows (rows @ [r]) st = add_row r (group_rows rows st)"
  by (induction rows arbitrary: st) auto

lemma grouped_None: "grouped rows v = None \<longleftrightarrow> v \<notin> r_vacancy_id ` set rows"
proof -
  have "grouped rows v = None \<longleftrightarrow> filter (\<lambda>r. r_vacancy_id r = v) rows = []"
    by (simp add: grouped_def split: list.splits)
  then show ?thesis by (auto simp: filter_empty_conv)
qed

lemma grouped_snoc:
  "grouped (rows @ [r]) v =
     (if v = r_vacancy_id r
      then Some (case grouped rows v of
                   None \<Rightarrow> \<lparr>it_vacancy_id = v, it_meta = r_meta r,
                             it_best_score = r_best_score r, it_evidence = [ev_of r]\<rparr>
                 | Some old \<Rightarrow> old\<lparr>it_evidence := it_evidence old @ [ev_of r]\<rparr>)
      else grouped rows v)"
  by (simp add: grouped_def split: list.splits)

lemma group_rows_closed:
  "group_rows rows ([], Map.empty) = (unique_seen {} (map r_vacancy_id rows), grouped rows)"
proof (induction rows rule: rev_induct)
  case Nil
  show ?case by (simp add: grouped_def fun_eq_iff)
next
  case (snoc r rows)
  show ?case
  proof (cases "grouped rows (r_vacancy_id r)")
    case None
    moreover from None have "r_vacancy_id r \<notin> r_vacancy_id ` set rows"
      by (simp add: grouped_None)
    ultimately show ?thesis
      unfolding group_rows_snoc snoc.IH
      by (simp add: add_row_def Let_def unique_seen_snoc fun_eq_iff grouped_snoc ev_of_def)
  next
    case (Some old)
    moreover from Some have "r_vacancy_id r \<in> r_vacancy_id ` set rows"
      using grouped_None[of rows "r_vacancy_id r"] by simp
    ultimately show ?thesis
      unfolding group_rows_snoc snoc.IH
      by (simp add: add_row_def Let_def unique_seen_snoc fun_eq_iff grouped_snoc ev_of_def)
  qed
qed


lemma mset_order_by: "mset (order_by tie key xs) = mset xs"
  by (simp add: order_by_def)

lemma set_order_by: "set (order_by tie key xs) = set xs"
  by (simp add: order_by_def)


lemma sorted_order_by: "sorted (map key (order_by tie key xs))"
  by (simp add: order_by_def)

lemma distinct_map_order_by: "distinct (map f (order_by tie key xs)) = distinct (map f xs)"
proof -
  have "mset (map f (order_by tie key xs)) = mset (map f xs)"
    by (simp add: mset_order_by)
  then show ?thesis by (rule mset_eq_imp_distinct_iff)
qed

lemma filter_order_by_mset:
  "mset (filter P (order_by tie key xs)) = mset (filter P xs)"
  by (simp add: mset_order_by)

lemma length_filter_order_by:
  "length (filter P (order_by tie key xs)) = length (filter P xs)"
  by (metis filter_order_by_mset size_mset)

lemma limit_node_Inr: "limit_node n xs = Inr ys \<longleftrightarrow> 0 \<le> n \<and> ys = take (nat n) xs"
  by (auto simp: limit_node_def)

text \<open>The tie-break functions lose no outcome: every list that \<open>order by\<close> may return for
  distinct rows (a permutation of the rows, sorted by the key) is returned for some tie-break
  function.\<close>

lemma position_in_distinct:
  assumes "distinct ys"
  shows "map (\<lambda>r. length (takeWhile (\<lambda>x. x \<noteq> r) ys)) ys = [0..<length ys]"
proof (rule nth_equalityI)
  show "length (map (\<lambda>r. length (takeWhile (\<lambda>x. x \<noteq> r) ys)) ys) = length [0..<length ys]"
    by simp
next
  fix i assume "i < length (map (\<lambda>r. length (takeWhile (\<lambda>x. x \<noteq> r) ys)) ys)"
  then have i: "i < length ys" by simp
  have "takeWhile (\<lambda>x. x \<noteq> ys ! i) ys = take i ys"
  proof (rule takeWhile_eq_take_P_nth)
    fix j assume "j < i" "j < length ys"
    with assms i show "ys ! j \<noteq> ys ! i" by (simp add: nth_eq_iff_index_eq)
  next
    show "\<not> ys ! i \<noteq> ys ! i" by simp
  qed
  with i show "map (\<lambda>r. length (takeWhile (\<lambda>x. x \<noteq> r) ys)) ys ! i = [0..<length ys] ! i"
    by simp
qed

lemma order_by_complete:
  assumes d: "distinct xs" and m: "mset ys = mset xs" and s: "sorted (map key ys)"
  shows "\<exists>tie. order_by tie key xs = ys"
proof -
  define tie where "tie r = length (takeWhile (\<lambda>x. x \<noteq> r) ys)" for r
  from d m have dy: "distinct ys" by (metis mset_eq_imp_distinct_iff)
  from m have se: "set ys = set xs" by (rule mset_eq_setD)
  have pos: "map tie ys = [0..<length ys]"
    unfolding tie_def using dy by (rule position_in_distinct)
  then have dt: "distinct (map tie ys)" by simp
  then have inj: "inj_on tie (set ys)" by (simp add: distinct_map)
  have "map tie (sort_key tie xs) = map tie ys"
  proof (rule sorted_distinct_set_unique)
    show "sorted (map tie (sort_key tie xs))" by simp
    show "distinct (map tie (sort_key tie xs))"
      using inj d by (simp add: distinct_map se)
    show "sorted (map tie ys)" by (simp add: pos)
    show "distinct (map tie ys)" by (rule dt)
    show "set (map tie (sort_key tie xs)) = set (map tie ys)" by (simp add: se)
  qed
  then have "sort_key tie xs = ys"
    using inj by (auto simp: inj_on_map_eq_map se)
  with s have "order_by tie key xs = ys"
    by (simp add: order_by_def sort_key_id_if_sorted)
  then show ?thesis by blast
qed

lemma filter_eq_single: "distinct zs \<Longrightarrow> k \<in> set zs \<Longrightarrow> filter (\<lambda>x. x = k) zs = [k]"
  by (induction zs) (auto simp: filter_empty_conv)

lemma order_by_distinct_keys:
  assumes "distinct (map key xs)"
  shows "order_by tie key xs = sort_key key xs"
proof -
  have inj: "inj_on key (set xs)" and d: "distinct xs"
    using assms by (auto simp: distinct_map)
  let ?ys = "order_by tie key xs"
  have m: "mset ?ys = mset xs" by (rule mset_order_by)
  have "sort_key key xs = ?ys"
  proof (rule properties_for_sort_key)
    show "mset ?ys = mset xs" by (rule m)
    show "sorted (map key ?ys)" by (rule sorted_order_by)
    fix k assume k: "k \<in> set ?ys"
    then have kx: "k \<in> set xs" by (simp add: set_order_by)
    have dy: "distinct ?ys" using m d by (metis mset_eq_imp_distinct_iff)
    have a: "filter (\<lambda>x. key k = key x) xs = filter (\<lambda>x. x = k) xs"
      by (rule filter_cong) (use inj kx in \<open>auto dest: inj_onD\<close>)
    have b: "filter (\<lambda>x. key k = key x) ?ys = filter (\<lambda>x. x = k) ?ys"
      by (rule filter_cong) (use inj kx in \<open>auto simp: set_order_by dest: inj_onD\<close>)
    have c: "filter (\<lambda>x. x = k) xs = [k]" using d kx
      by (rule filter_eq_single)
    have e: "filter (\<lambda>x. x = k) ?ys = [k]" using dy k
      by (rule filter_eq_single)
    show "filter (\<lambda>x. key k = key x) ?ys = filter (\<lambda>x. key k = key x) xs"
      by (simp add: a b c e)
  qed
  then show ?thesis by simp
qed


lemma number_partition_length: "length (number_partition part) = length part"
  by (simp add: number_partition_def split: list.splits)

lemma number_partition_nth:
  assumes "i < length part"
  shows "number_partition part ! i =
           extend_row (part ! i) (int (Suc i)) (Min (r_score ` set part))"
proof (cases part)
  case Nil
  with assms show ?thesis by simp
next
  case (Cons p ps)
  have "fold min (map r_score ps) (r_score p) = Min (set (map r_score (p # ps)))"
    using Min.set_eq_fold[of "r_score p" "map r_score ps"] by simp
  then have b: "fold min (map r_score ps) (r_score p) = Min (r_score ` set part)"
    by (simp add: Cons)
  have "number_partition part =
          map (\<lambda>(i, r). extend_row r (int i) (fold min (map r_score ps) (r_score p)))
            (enumerate 1 part)"
    by (simp add: number_partition_def Cons)
  then have "number_partition part ! i =
          (\<lambda>(i, r). extend_row r (int i) (fold min (map r_score ps) (r_score p)))
            (enumerate 1 part ! i)"
    using assms by (simp only: nth_map length_enumerate)
  also have "enumerate 1 part ! i = (1 + i, part ! i)"
    using assms by (rule nth_enumerate_eq)
  finally show ?thesis by (simp add: b)
qed

lemma number_partition_set:
  "r \<in> set (number_partition part) \<longleftrightarrow>
     (\<exists>i < length part. r = extend_row (part ! i) (int (Suc i)) (Min (r_score ` set part)))"
  by (auto simp: in_set_conv_nth number_partition_length number_partition_nth)

lemma filter_concat_map_key:
  assumes "distinct vs" and "\<And>u r. u \<in> set vs \<Longrightarrow> r \<in> set (F u) \<Longrightarrow> key r = u"
  shows "filter (\<lambda>r. key r = v) (concat (map F vs)) = (if v \<in> set vs then F v else [])"
  using assms
proof (induction vs)
  case Nil
  show ?case by simp
next
  case (Cons u us)
  have all: "filter (\<lambda>r. key r = u) (F u) = F u"
    using Cons.prems(2)[of u] by (simp add: filter_id_conv)
  have none: "v \<noteq> u \<Longrightarrow> filter (\<lambda>r. key r = v) (F u) = []"
    using Cons.prems(2)[of u] by (auto simp: filter_empty_conv)
  have ih: "filter (\<lambda>r. key r = v) (concat (map F us)) = (if v \<in> set us then F v else [])"
    using Cons.IH Cons.prems by simp
  show ?case
  proof (cases "v = u")
    case True
    with ih all Cons.prems(1) show ?thesis by simp
  next
    case False
    with ih none show ?thesis by simp
  qed
qed

lemma extend_row_simps [simp]:
  "r_vacancy_id (extend_row r i b) = r_vacancy_id r"
  "r_meta (extend_row r i b) = r_meta r"
  "r_chunk_no (extend_row r i b) = r_chunk_no r"
  "r_text (extend_row r i b) = r_text r"
  "r_dist (extend_row r i b) = r_dist r"
  "r_kw_sim (extend_row r i b) = r_kw_sim r"
  "r_score (extend_row r i b) = r_score r"
  "r_rn (extend_row r i b) = i"
  "r_best_score (extend_row r i b) = b"
  by (simp_all add: extend_row_def)

lemma window_partition_set:
  "set (window_partition pl sc v) = {x \<in> set sc. r_vacancy_id x = v}"
  by (auto simp: window_partition_def set_order_by)

lemma window_partition_sorted: "sorted (map r_score (window_partition pl sc v))"
  by (simp add: window_partition_def sorted_order_by)

lemma ranked_filter:
  "filter (\<lambda>r. r_vacancy_id r = v) (ranked pl sc) =
     (if v \<in> r_vacancy_id ` set sc then number_partition (window_partition pl sc v) else [])"
proof -
  have "filter (\<lambda>r. r_vacancy_id r = v)
          (concat (map (\<lambda>v. number_partition (window_partition pl sc v))
             (remdups (map r_vacancy_id sc)))) =
        (if v \<in> set (remdups (map r_vacancy_id sc))
         then number_partition (window_partition pl sc v) else [])"
  proof (rule filter_concat_map_key)
    show "distinct (remdups (map r_vacancy_id sc))" by simp
    fix u r
    assume "r \<in> set (number_partition (window_partition pl sc u))"
    then obtain i where i: "i < length (window_partition pl sc u)"
      and r: "r = extend_row (window_partition pl sc u ! i) (int (Suc i))
                    (Min (r_score ` set (window_partition pl sc u)))"
      by (auto simp: number_partition_set)
    from i have "window_partition pl sc u ! i \<in> set (window_partition pl sc u)"
      by simp
    then show "r_vacancy_id r = u" by (simp add: r window_partition_set)
  qed
  then show ?thesis by (simp add: ranked_def)
qed

lemma ranked_row_char:
  assumes "r \<in> set (ranked pl sc)"
  shows "\<exists>v i. v = r_vacancy_id r \<and> i < length (window_partition pl sc v) \<and>
           r = extend_row (window_partition pl sc v ! i) (int (Suc i))
                 (Min (r_score ` {x \<in> set sc. r_vacancy_id x = v}))"
proof -
  from assms have "r \<in> set (filter (\<lambda>x. r_vacancy_id x = r_vacancy_id r) (ranked pl sc))"
    by simp
  then have "r \<in> set (number_partition (window_partition pl sc (r_vacancy_id r)))"
    by (simp add: ranked_filter split: if_splits)
  then show ?thesis
    by (simp add: number_partition_set window_partition_set)
qed

lemma ranked_best:
  assumes "r \<in> set (ranked pl sc)"
  shows "r_best_score r = Min (r_score ` {x \<in> set sc. r_vacancy_id x = r_vacancy_id r})"
proof -
  from ranked_row_char[OF assms] obtain v i where
    "v = r_vacancy_id r" and
    "r = extend_row (window_partition pl sc v ! i) (int (Suc i))
              (Min (r_score ` {x \<in> set sc. r_vacancy_id x = v}))"
    by blast
  then show ?thesis by (metis extend_row_simps(9))
qed

lemma ranked_rn_pos:
  assumes "r \<in> set (ranked pl sc)"
  shows "1 \<le> r_rn r"
proof -
  from ranked_row_char[OF assms] obtain v i where
    "r = extend_row (window_partition pl sc v ! i) (int (Suc i))
              (Min (r_score ` {x \<in> set sc. r_vacancy_id x = v}))"
    by blast
  then have "r_rn r = int (Suc i)" by (metis extend_row_simps(8))
  then show ?thesis by simp
qed

lemma extend_row_self: "r = extend_row x i b \<Longrightarrow> r = extend_row x (r_rn r) (r_best_score r)"
  by simp

lemma ranked_source:
  assumes "r \<in> set (ranked pl sc)"
  shows "\<exists>x \<in> set sc. r = extend_row x (r_rn r) (r_best_score r)"
proof -
  from ranked_row_char[OF assms] obtain v i where
    i: "i < length (window_partition pl sc v)" and
    r: "r = extend_row (window_partition pl sc v ! i) (int (Suc i))
              (Min (r_score ` {x \<in> set sc. r_vacancy_id x = v}))"
    by blast
  from i have "window_partition pl sc v ! i \<in> set (window_partition pl sc v)" by simp
  then have "window_partition pl sc v ! i \<in> set sc"
    by (simp add: window_partition_set)
  with extend_row_self[OF r] show ?thesis by blast
qed

lemma ranked_score_mono:
  assumes "r1 \<in> set (ranked pl sc)" "r2 \<in> set (ranked pl sc)"
    and "r_vacancy_id r1 = r_vacancy_id r2" and "r_rn r1 \<le> r_rn r2"
  shows "r_score r1 \<le> r_score r2"
proof -
  let ?P = "window_partition pl sc (r_vacancy_id r2)"
  from ranked_row_char[OF assms(1)] assms(3) obtain i where
    i: "i < length ?P" and r1: "r_rn r1 = int (Suc i)" "r_score r1 = r_score (?P ! i)"
    by (metis extend_row_simps(7,8))
  from ranked_row_char[OF assms(2)] obtain j where
    j: "j < length ?P" and r2: "r_rn r2 = int (Suc j)" "r_score r2 = r_score (?P ! j)"
    by (metis extend_row_simps(7,8))
  from assms(4) r1 r2 have "i \<le> j" by simp
  with j have "map r_score ?P ! i \<le> map r_score ?P ! j"
    using window_partition_sorted[of pl sc "r_vacancy_id r2"]
    by (simp only: sorted_nth_mono length_map)
  with i j r1 r2 show ?thesis by simp
qed

lemma number_partition_rn:
  "map r_rn (number_partition part) = map (\<lambda>i. int (Suc i)) [0..<length part]"
  by (rule nth_equalityI) (simp_all add: number_partition_length number_partition_nth)

lemma upt_filter_bound: "length (filter (\<lambda>i. int (Suc i) \<le> n) [0..<m]) \<le> nat n"
proof -
  have "distinct (filter (\<lambda>i. int (Suc i) \<le> n) [0..<m])" by simp
  then have "length (filter (\<lambda>i. int (Suc i) \<le> n) [0..<m])
          = card (set (filter (\<lambda>i. int (Suc i) \<le> n) [0..<m]))"
    by (simp only: distinct_card)
  also have "\<dots> \<le> card {0..<nat n}"
    by (rule card_mono) auto
  finally show ?thesis by simp
qed

lemma number_partition_cap:
  "length (filter (\<lambda>r. r_rn r \<le> n) (number_partition part)) \<le> nat n"
proof -
  have "length (filter (\<lambda>r. r_rn r \<le> n) (number_partition part))
          = length (filter (\<lambda>i. i \<le> n) (map r_rn (number_partition part)))"
    by (simp add: filter_map comp_def)
  also have "\<dots> = length (filter (\<lambda>i. int (Suc i) \<le> n) [0..<length part])"
    by (simp only: number_partition_rn filter_map comp_def length_map)
  finally show ?thesis using upt_filter_bound[of n "length part"] by simp
qed

lemma filter3: "filter (\<lambda>r. A r \<and> Q r \<and> C r) xs = filter Q (filter C (filter A xs))"
  by (induction xs) auto

lemma ranked_cap:
  "length (filter (\<lambda>r. r_vacancy_id r = v \<and> Q r \<and> r_rn r \<le> n) (ranked pl sc)) \<le> nat n"
proof -
  have "length (filter (\<lambda>r. r_vacancy_id r = v \<and> Q r \<and> r_rn r \<le> n) (ranked pl sc))
          \<le> length (filter (\<lambda>r. r_rn r \<le> n) (filter (\<lambda>r. r_vacancy_id r = v) (ranked pl sc)))"
    unfolding filter3 by (rule length_filter_le)
  also have "\<dots> \<le> nat n"
    by (simp add: ranked_filter number_partition_cap)
  finally show ?thesis .
qed


lemma scored_select_mem:
  "r \<in> set (scored_select cols db) \<longleftrightarrow>
     (\<exists>c \<in> set (vacancy_chunks db). \<exists>v d.
        vacancies db (c_vacancy_id c) = Some v \<and> c_dist c = Some d \<and>
        r = \<lparr>r_vacancy_id = c_vacancy_id c, r_meta = v, r_chunk_no = c_chunk_no c,
             r_text = c_text c, r_dist = d, r_kw_sim = fst (cols c d),
             r_score = snd (cols c d)\<rparr>)"
proof
  assume "r \<in> set (scored_select cols db)"
  then show "\<exists>c \<in> set (vacancy_chunks db). \<exists>v d.
        vacancies db (c_vacancy_id c) = Some v \<and> c_dist c = Some d \<and>
        r = \<lparr>r_vacancy_id = c_vacancy_id c, r_meta = v, r_chunk_no = c_chunk_no c,
             r_text = c_text c, r_dist = d, r_kw_sim = fst (cols c d),
             r_score = snd (cols c d)\<rparr>"
    by (auto simp: scored_select_def split: option.splits)
next
  assume "\<exists>c \<in> set (vacancy_chunks db). \<exists>v d.
        vacancies db (c_vacancy_id c) = Some v \<and> c_dist c = Some d \<and>
        r = \<lparr>r_vacancy_id = c_vacancy_id c, r_meta = v, r_chunk_no = c_chunk_no c,
             r_text = c_text c, r_dist = d, r_kw_sim = fst (cols c d),
             r_score = snd (cols c d)\<rparr>"
  then obtain c v d where "c \<in> set (vacancy_chunks db)"
    "vacancies db (c_vacancy_id c) = Some v" "c_dist c = Some d"
    "r = \<lparr>r_vacancy_id = c_vacancy_id c, r_meta = v, r_chunk_no = c_chunk_no c,
             r_text = c_text c, r_dist = d, r_kw_sim = fst (cols c d),
             r_score = snd (cols c d)\<rparr>" by blast
  then show "r \<in> set (scored_select cols db)"
    by (auto simp: scored_select_def intro!: bexI[where x = c])
qed

lemma scored_subset:
  "scored pl cols db candidates = Inr sc \<Longrightarrow> set sc \<subseteq> set (scored_select cols db)"
  by (auto simp: scored_def limit_node_Inr set_order_by dest: in_set_takeD)

lemma scored_meta:
  assumes "scored pl cols db candidates = Inr sc" and "r \<in> set sc"
  shows "vacancies db (r_vacancy_id r) = Some (r_meta r)"
proof -
  from assms have "r \<in> set (scored_select cols db)" using scored_subset by blast
  then show ?thesis by (auto simp: scored_select_mem)
qed

lemma ranked_meta:
  assumes "scored pl cols db candidates = Inr sc" and "r \<in> set (ranked pl sc)"
  shows "vacancies db (r_vacancy_id r) = Some (r_meta r)"
proof -
  from ranked_source[OF assms(2)] obtain x where
    x: "x \<in> set sc" and r: "r = extend_row x (r_rn r) (r_best_score r)" by blast
  from r have "r_vacancy_id r = r_vacancy_id x" "r_meta r = r_meta x"
    by (metis extend_row_simps(1), metis extend_row_simps(2))
  with scored_meta[OF assms(1) x] show ?thesis by simp
qed

text \<open>The rows of \<open>top_vacs\<close>.\<close>

lemma top_vacs_char:
  assumes sc: "scored pl cols db candidates = Inr sc"
    and tv: "top_vacs pl (ranked pl sc) k = Inr tops"
  shows "distinct (map fst tops)"
    and "\<And>v m b. (v, m, b) \<in> set tops \<Longrightarrow>
           \<exists>r \<in> set (ranked pl sc). r_vacancy_id r = v \<and> r_meta r = m \<and> r_best_score r = b"
    and "sorted (map (\<lambda>(v, m, b). b) tops)"
    and "0 \<le> k"
proof -
  let ?proj = "\<lambda>r. (r_vacancy_id r, r_meta r, r_best_score r)"
  let ?ps = "remdups (map ?proj (ranked pl sc))"
  let ?os = "order_by (tie_top_vacs pl) (\<lambda>(v, m, b). b) ?ps"
  from tv have k: "0 \<le> k" and tops: "tops = take (nat k) ?os"
    by (simp_all add: top_vacs_def limit_node_Inr)
  show "0 \<le> k" by (rule k)
  have "inj_on fst (set ?ps)"
  proof (rule inj_onI)
    fix p q assume p: "p \<in> set ?ps" and q: "q \<in> set ?ps" and e: "fst p = fst q"
    from p obtain r1 where r1: "r1 \<in> set (ranked pl sc)" "p = ?proj r1" by auto
    from q obtain r2 where r2: "r2 \<in> set (ranked pl sc)" "q = ?proj r2" by auto
    from e r1 r2 have v: "r_vacancy_id r1 = r_vacancy_id r2" by simp
    have "r_meta r1 = r_meta r2"
      using ranked_meta[OF sc r1(1)] ranked_meta[OF sc r2(1)] v by simp
    moreover have "r_best_score r1 = r_best_score r2"
      using ranked_best[OF r1(1)] ranked_best[OF r2(1)] v by simp
    ultimately show "p = q" using r1 r2 v by simp
  qed
  then have "distinct (map fst ?ps)" by (simp add: distinct_map)
  then have "distinct (map fst ?os)" by (simp only: distinct_map_order_by)
  then have "distinct (take (nat k) (map fst ?os))" by (rule distinct_take)
  then show "distinct (map fst tops)" by (simp add: tops take_map)
  have "sorted (map (\<lambda>(v, m, b). b) ?os)" by (rule sorted_order_by)
  then have "sorted (take (nat k) (map (\<lambda>(v, m, b). b) ?os))" by (rule sorted_wrt_take)
  then show "sorted (map (\<lambda>(v, m, b). b) tops)" by (simp add: tops take_map)
  fix v m b assume "(v, m, b) \<in> set tops"
  then have "(v, m, b) \<in> set ?os" unfolding tops by (rule in_set_takeD)
  then have "(v, m, b) \<in> set (map ?proj (ranked pl sc))" by (simp add: set_order_by)
  then show "\<exists>r \<in> set (ranked pl sc). r_vacancy_id r = v \<and> r_meta r = m \<and> r_best_score r = b"
    by auto
qed

text \<open>The join with \<open>top_vacs\<close> keeps or drops each row of \<open>ranked\<close>.\<close>

lemma join_one:
  assumes "distinct (map fst tops)"
    and "\<And>v m b. (v, m, b) \<in> set tops \<Longrightarrow> r_vacancy_id r = v \<Longrightarrow> b = r_best_score r"
  shows "concat (map (\<lambda>(v, m, b).
            if r_vacancy_id r = v \<and> r_rn r \<le> per_vac then [r\<lparr>r_best_score := b\<rparr>] else []) tops)
         = (if r_vacancy_id r \<in> fst ` set tops \<and> r_rn r \<le> per_vac then [r] else [])"
  using assms
proof (induction tops)
  case Nil
  show ?case by simp
next
  case (Cons t tops)
  obtain v m b where t: "t = (v, m, b)" by (cases t)
  have ih: "concat (map (\<lambda>(v, m, b).
            if r_vacancy_id r = v \<and> r_rn r \<le> per_vac then [r\<lparr>r_best_score := b\<rparr>] else []) tops)
         = (if r_vacancy_id r \<in> fst ` set tops \<and> r_rn r \<le> per_vac then [r] else [])"
  proof (rule Cons.IH)
    show "distinct (map fst tops)" using Cons.prems(1) by simp
    fix v m b assume "(v, m, b) \<in> set tops" "r_vacancy_id r = v"
    then show "b = r_best_score r" using Cons.prems(2)[of v m b] by simp
  qed
  show ?case
  proof (cases "v = r_vacancy_id r")
    case True
    have "(v, m, b) \<in> set (t # tops)" by (simp add: t)
    then have b: "b = r_best_score r" using True[symmetric] by (rule Cons.prems(2))
    have "fst t \<notin> fst ` set tops" using Cons.prems(1) by simp
    then have "r_vacancy_id r \<notin> fst ` set tops" by (simp add: t True)
    with ih have rest: "concat (map (\<lambda>(v, m, b).
            if r_vacancy_id r = v \<and> r_rn r \<le> per_vac then [r\<lparr>r_best_score := b\<rparr>] else []) tops)
         = []" by simp
    show ?thesis unfolding t True b list.map concat.simps rest by simp
  next
    case False
    then show ?thesis by (simp add: t ih)
  qed
qed

lemma concat_map_filter: "concat (map (\<lambda>x. if P x then [x] else []) xs) = filter P xs"
  by (induction xs) auto

lemma final_select_char:
  assumes sc: "scored pl cols db candidates = Inr sc"
    and tv: "top_vacs pl (ranked pl sc) k = Inr tops"
  shows "final_select pl (ranked pl sc) tops per_vac =
           order_by (tie_final pl) (\<lambda>r. (r_best_score r, r_rn r))
             (filter (\<lambda>r. r_vacancy_id r \<in> fst ` set tops \<and> r_rn r \<le> per_vac) (ranked pl sc))"
proof -
  have one: "concat (map (\<lambda>(v, m, b).
            if r_vacancy_id r = v \<and> r_rn r \<le> per_vac then [r\<lparr>r_best_score := b\<rparr>] else []) tops)
         = (if r_vacancy_id r \<in> fst ` set tops \<and> r_rn r \<le> per_vac then [r] else [])"
    if r: "r \<in> set (ranked pl sc)" for r
  proof (rule join_one)
    show "distinct (map fst tops)" by (rule top_vacs_char(1)[OF sc tv])
    fix v m b assume "(v, m, b) \<in> set tops" and v: "r_vacancy_id r = v"
    then obtain r' where r': "r' \<in> set (ranked pl sc)" "r_vacancy_id r' = v" "r_best_score r' = b"
      using top_vacs_char(2)[OF sc tv] by blast
    show "b = r_best_score r"
      using ranked_best[OF r] ranked_best[OF r'(1)] r'(2,3) v by simp
  qed
  have "concat (map (\<lambda>r. concat (map (\<lambda>(v, m, b).
            if r_vacancy_id r = v \<and> r_rn r \<le> per_vac then [r\<lparr>r_best_score := b\<rparr>] else []) tops))
          (ranked pl sc))
        = concat (map (\<lambda>r. if r_vacancy_id r \<in> fst ` set tops \<and> r_rn r \<le> per_vac then [r] else [])
          (ranked pl sc))"
    by (rule arg_cong[where f = concat], rule map_cong[OF refl]) (rule one)
  then show ?thesis by (simp only: final_select_def concat_map_filter)
qed

section \<open>Properties of retrieval and of the endpoint\<close>

lemma grouped_Some:
  "v \<in> r_vacancy_id ` set rows \<Longrightarrow> \<exists>it. grouped rows v = Some it"
  using grouped_None[of rows v] by auto

lemma build_results_char:
  assumes "\<And>v. v \<in> set vo \<Longrightarrow> \<exists>it. vm v = Some it"
  shows "build_results rt kws mq hl vm vo =
           Inr (map (\<lambda>v. format_item rt kws mq hl (the (vm v))) vo)"
  using assms by (induction vo) (auto split: option.splits)

text \<open>\<open>retrieve_vacancies\<close> and \<open>search\<close> in terms of the statement: the loops raise nothing.\<close>

lemma retrieve_sql:
  "retrieve_vacancies pl db k per_vac candidates kw_weight =
     (case sql_v2 pl (used_cols db kw_weight) db candidates k per_vac of
        Inl e \<Rightarrow> Inl e
      | Inr rows \<Rightarrow>
          Inr (unique_seen {} (map r_vacancy_id rows), grouped rows, pg_trgm db,
               if pg_trgm db then kw_weight else 0))"
proof -
  have q: "(if has_pg_trgm db \<and> (if \<not> has_pg_trgm db then 0 else kw_weight) > 0
            then SQL_V2_WITH_TRGM pl db (if \<not> has_pg_trgm db then 0 else kw_weight) candidates k per_vac
            else SQL_V2_NO_TRGM pl db candidates k per_vac)
           = sql_v2 pl (used_cols db kw_weight) db candidates k per_vac"
    by (simp add: SQL_V2_WITH_TRGM_def SQL_V2_NO_TRGM_def used_cols_def)
  have u: "unique_seen {} (unique_seen {} (map r_vacancy_id rows))
             = unique_seen {} (map r_vacancy_id rows)" for rows :: "ranked_row list"
    by (rule unique_seen_id) (simp_all add: unique_seen_distinct)
  show ?thesis
    unfolding retrieve_vacancies_def Let_def q
    by (simp add: group_rows_closed u has_pg_trgm_def split: sum.splits)
qed

lemma search_sql:
  "search rt pl db q k per_vac candidates kw_weight mq hl =
     (case sql_v2 pl (used_cols db kw_weight) db candidates k per_vac of
        Inl e \<Rightarrow> Inl e
      | Inr rows \<Rightarrow> Inr (response_of rt db q k per_vac kw_weight mq hl rows))"
proof (cases "sql_v2 pl (used_cols db kw_weight) db candidates k per_vac")
  case (Inl e)
  then show ?thesis by (simp add: search_def retrieve_sql)
next
  case (Inr rows)
  have "build_results rt (extract_query_keywords rt q 12) mq hl (grouped rows)
          (unique_seen {} (map r_vacancy_id rows)) =
        Inr (map (\<lambda>v. format_item rt (extract_query_keywords rt q 12) mq hl (the (grouped rows v)))
               (unique_seen {} (map r_vacancy_id rows)))"
    by (rule build_results_char) (simp add: unique_seen_set grouped_Some)
  with Inr show ?thesis by (simp add: search_def retrieve_sql response_of_def)
qed

lemma search_char:
  assumes "search rt pl db q k per_vac candidates kw_weight mq hl = Inr resp"
  obtains rows where
    "sql_v2 pl (used_cols db kw_weight) db candidates k per_vac = Inr rows"
    "resp_results resp =
       map (\<lambda>v. format_item rt (extract_query_keywords rt q 12) mq hl (the (grouped rows v)))
           (unique_seen {} (map r_vacancy_id rows))"
    "resp_hybrid_used resp = (pg_trgm db \<and> kw_weight > 0)"
    "resp_kw_weight_used resp = (if pg_trgm db then kw_weight else 0)"
    "resp_query resp = q" "resp_k resp = k" "resp_per_vac resp = per_vac"
proof -
  from assms obtain rows where
    r: "sql_v2 pl (used_cols db kw_weight) db candidates k per_vac = Inr rows"
    and e: "resp = response_of rt db q k per_vac kw_weight mq hl rows"
    unfolding search_sql by (auto split: sum.splits)
  show ?thesis by (rule that[OF r]) (simp_all add: e response_of_def)
qed

text \<open>When the statement returns a row, all of its parts were computed.\<close>

lemma sql_v2_rows:
  assumes "sql_v2 pl cols db candidates k per_vac = Inr rows" and "rows \<noteq> []"
  obtains sc tops where
    "scored pl cols db candidates = Inr sc"
    "top_vacs pl (ranked pl sc) k = Inr tops"
    "rows = final_select pl (ranked pl sc) tops per_vac"
  using assms
  by (auto simp: sql_v2_def split: if_splits join_side.splits sum.splits)

lemma search_char_rows:
  assumes "search rt pl db q k per_vac candidates kw_weight mq hl = Inr resp"
    and "resp_results resp \<noteq> []"
  obtains sc tops rows where
    "scored pl (used_cols db kw_weight) db candidates = Inr sc"
    "top_vacs pl (ranked pl sc) k = Inr tops"
    "rows = final_select pl (ranked pl sc) tops per_vac"
    "resp_results resp =
       map (\<lambda>v. format_item rt (extract_query_keywords rt q 12) mq hl (the (grouped rows v)))
           (unique_seen {} (map r_vacancy_id rows))"
proof -
  from assms(1) obtain rows where
    r: "sql_v2 pl (used_cols db kw_weight) db candidates k per_vac = Inr rows"
    and res: "resp_results resp =
       map (\<lambda>v. format_item rt (extract_query_keywords rt q 12) mq hl (the (grouped rows v)))
           (unique_seen {} (map r_vacancy_id rows))"
    by (rule search_char)
  from res assms(2) have "rows \<noteq> []" by auto
  with r obtain sc tops where
    a: "scored pl (used_cols db kw_weight) db candidates = Inr sc"
    and b: "top_vacs pl (ranked pl sc) k = Inr tops"
    and c: "rows = final_select pl (ranked pl sc) tops per_vac"
    by (rule sql_v2_rows)
  show ?thesis by (rule that[OF a b c res])
qed

lemma final_rows_facts:
  assumes sc: "scored pl cols db candidates = Inr sc"
    and tv: "top_vacs pl (ranked pl sc) k = Inr tops"
    and rows: "rows = final_select pl (ranked pl sc) tops per_vac"
  shows "set rows \<subseteq> set (ranked pl sc)"
    and "sorted (map (\<lambda>r. (r_best_score r, r_rn r)) rows)"
    and "length (filter (\<lambda>r. r_vacancy_id r = v) rows) \<le> nat per_vac"
    and "\<And>r. r \<in> set rows \<Longrightarrow> r_rn r \<le> per_vac"
proof -
  let ?Q = "\<lambda>r. r_vacancy_id r \<in> fst ` set tops \<and> r_rn r \<le> per_vac"
  have r: "rows = order_by (tie_final pl) (\<lambda>r. (r_best_score r, r_rn r))
                    (filter ?Q (ranked pl sc))"
    unfolding rows by (rule final_select_char[OF sc tv])
  show "set rows \<subseteq> set (ranked pl sc)" by (auto simp: r set_order_by)
  show "sorted (map (\<lambda>r. (r_best_score r, r_rn r)) rows)"
    unfolding r by (rule sorted_order_by)
  have "length (filter (\<lambda>r. r_vacancy_id r = v) rows)
          = length (filter (\<lambda>r. r_vacancy_id r = v) (filter ?Q (ranked pl sc)))"
    unfolding r by (rule length_filter_order_by)
  also have "filter (\<lambda>r. r_vacancy_id r = v) (filter ?Q (ranked pl sc))
          = filter (\<lambda>r. r_vacancy_id r = v \<and> r_vacancy_id r \<in> fst ` set tops \<and> r_rn r \<le> per_vac)
              (ranked pl sc)"
    by (auto simp: filter_filter intro: filter_cong)
  also have "length \<dots> \<le> nat per_vac" by (rule ranked_cap)
  finally show "length (filter (\<lambda>r. r_vacancy_id r = v) rows) \<le> nat per_vac" .
  fix x assume "x \<in> set rows"
  then show "r_rn x \<le> per_vac" by (simp add: r set_order_by)
qed

lemma grouped_the:
  assumes "v \<in> r_vacancy_id ` set rows"
  shows "it_vacancy_id (the (grouped rows v)) = v"
    and "it_evidence (the (grouped rows v)) = map ev_of (filter (\<lambda>r. r_vacancy_id r = v) rows)"
    and "\<exists>r \<in> set rows. r_vacancy_id r = v \<and> it_best_score (the (grouped rows v)) = r_best_score r"
proof -
  from assms have "filter (\<lambda>r. r_vacancy_id r = v) rows \<noteq> []"
    by (auto simp: filter_empty_conv)
  then obtain r rs where f: "filter (\<lambda>r. r_vacancy_id r = v) rows = r # rs"
    by (cases "filter (\<lambda>r. r_vacancy_id r = v) rows") auto
  then have "r \<in> set (filter (\<lambda>r. r_vacancy_id r = v) rows)" by simp
  then have r: "r \<in> set rows" "r_vacancy_id r = v" by simp_all
  show "it_vacancy_id (the (grouped rows v)) = v" by (simp add: grouped_def f)
  show "it_evidence (the (grouped rows v)) = map ev_of (filter (\<lambda>r. r_vacancy_id r = v) rows)"
    by (simp add: grouped_def f)
  have "it_best_score (the (grouped rows v)) = r_best_score r" by (simp add: grouped_def f)
  with r show "\<exists>r \<in> set rows. r_vacancy_id r = v \<and>
      it_best_score (the (grouped rows v)) = r_best_score r" by blast
qed

lemma format_item_simps [simp]:
  "it_vacancy_id (format_item rt kws mq hl it) = it_vacancy_id it"
  "it_meta (format_item rt kws mq hl it) = it_meta it"
  "it_best_score (format_item rt kws mq hl it) = it_best_score it"
  "map ev_score (it_evidence (format_item rt kws mq hl it)) = map ev_score (it_evidence it)"
  "length (it_evidence (format_item rt kws mq hl it)) = length (it_evidence it)"
  by (simp_all add: format_item_def comp_def)



lemma search_item:
  assumes "search rt pl db q k per_vac candidates kw_weight mq hl = Inr resp"
    and "it \<in> set (resp_results resp)"
  obtains sc tops rows where
    "scored pl (used_cols db kw_weight) db candidates = Inr sc"
    "top_vacs pl (ranked pl sc) k = Inr tops"
    "rows = final_select pl (ranked pl sc) tops per_vac"
    "it_vacancy_id it \<in> r_vacancy_id ` set rows"
    "it = format_item rt (extract_query_keywords rt q 12) mq hl
            (the (grouped rows (it_vacancy_id it)))"
proof -
  from assms(2) have "resp_results resp \<noteq> []" by auto
  with assms(1) obtain sc tops rows where
    sc: "scored pl (used_cols db kw_weight) db candidates = Inr sc"
    and tv: "top_vacs pl (ranked pl sc) k = Inr tops"
    and rows: "rows = final_select pl (ranked pl sc) tops per_vac"
    and res: "resp_results resp =
       map (\<lambda>v. format_item rt (extract_query_keywords rt q 12) mq hl (the (grouped rows v)))
           (unique_seen {} (map r_vacancy_id rows))"
    by (rule search_char_rows)
  from assms(2) res obtain v where
    v: "v \<in> r_vacancy_id ` set rows"
    and it: "it = format_item rt (extract_query_keywords rt q 12) mq hl (the (grouped rows v))"
    by (auto simp: unique_seen_set)
  from it have "it_vacancy_id it = v" by (simp add: grouped_the(1)[OF v])
  with sc tv rows v it show ?thesis by (intro that[of sc tops rows]) simp_all
qed

lemma search_evidence_facts:
  assumes s: "search rt pl db q k per_vac candidates kw_weight mq hl = Inr resp"
    and i: "it \<in> set (resp_results resp)"
  shows "sorted (map ev_score (it_evidence it))"
    and "int (length (it_evidence it)) \<le> per_vac"
    and "it_evidence it \<noteq> []"
    and "\<exists>sc. scored pl (used_cols db kw_weight) db candidates = Inr sc \<and>
           it_best_score it = Min (r_score ` {x \<in> set sc. r_vacancy_id x = it_vacancy_id it})"
proof -
  from s i obtain sc tops rows where
    sc: "scored pl (used_cols db kw_weight) db candidates = Inr sc"
    and tv: "top_vacs pl (ranked pl sc) k = Inr tops"
    and rows: "rows = final_select pl (ranked pl sc) tops per_vac"
    and v: "it_vacancy_id it \<in> r_vacancy_id ` set rows"
    and it: "it = format_item rt (extract_query_keywords rt q 12) mq hl
            (the (grouped rows (it_vacancy_id it)))"
    by (rule search_item)
  let ?v = "it_vacancy_id it"
  let ?f = "filter (\<lambda>r. r_vacancy_id r = ?v) rows"
  note ff = final_rows_facts[OF sc tv rows]
  have best: "r_best_score r = Min (r_score ` {x \<in> set sc. r_vacancy_id x = r_vacancy_id r})"
    if "r \<in> set rows" for r
    using that ff(1) ranked_best[of r pl sc] by auto
  have sc_ev: "map ev_score (it_evidence it) = map r_score ?f"
    by (subst it) (simp add: grouped_the(2)[OF v] comp_def ev_of_def)
  have len: "length (it_evidence it) = length ?f"
    by (subst it) (simp add: grouped_the(2)[OF v])
  have "sorted_wrt (\<lambda>x y. (r_best_score x, r_rn x) \<le> (r_best_score y, r_rn y)) rows"
    using ff(2) by (simp add: sorted_map)
  then have "sorted_wrt (\<lambda>x y. (r_best_score x, r_rn x) \<le> (r_best_score y, r_rn y)) ?f"
    by (rule sorted_wrt_filter)
  then have "sorted_wrt (\<lambda>x y. r_score x \<le> r_score y) ?f"
  proof (rule sorted_wrt_mono_rel[rotated])
    fix x y assume x: "x \<in> set ?f" and y: "y \<in> set ?f"
      and le: "(r_best_score x, r_rn x) \<le> (r_best_score y, r_rn y)"
    from x y have xr: "x \<in> set rows" "y \<in> set rows" and vv: "r_vacancy_id x = r_vacancy_id y"
      by simp_all
    from best[OF xr(1)] best[OF xr(2)] vv have "r_best_score x = r_best_score y" by simp
    with le have "r_rn x \<le> r_rn y" by (simp add: less_eq_prod_def)
    with xr vv ff(1) show "r_score x \<le> r_score y"
      by (intro ranked_score_mono[of x pl sc y]) auto
  qed
  then show "sorted (map ev_score (it_evidence it))" by (simp add: sc_ev sorted_map)
  from v obtain r where r: "r \<in> set rows" "r_vacancy_id r = ?v" by auto
  then have ne: "?f \<noteq> []" by (auto simp: filter_empty_conv)
  then show "it_evidence it \<noteq> []" using len by auto
  from r ff(1) have "1 \<le> r_rn r" by (auto intro: ranked_rn_pos)
  with ff(4)[OF r(1)] have "0 \<le> per_vac" by simp
  with ff(3)[of ?v] len show "int (length (it_evidence it)) \<le> per_vac" by simp
  from grouped_the(3)[OF v] obtain r' where
    r': "r' \<in> set rows" "r_vacancy_id r' = ?v"
      "it_best_score (the (grouped rows ?v)) = r_best_score r'" by blast
  have "it_best_score it = r_best_score r'" by (subst it) (simp add: r'(3))
  with best[OF r'(1)] r'(2) sc
  show "\<exists>sc. scored pl (used_cols db kw_weight) db candidates = Inr sc \<and>
           it_best_score it = Min (r_score ` {x \<in> set sc. r_vacancy_id x = it_vacancy_id it})"
    by simp
qed

lemma search_evidence_source:
  assumes s: "search rt pl db q k per_vac candidates kw_weight mq hl = Inr resp"
    and i: "it \<in> set (resp_results resp)"
    and e: "ev \<in> set (it_evidence it)"
  shows "\<exists>c \<in> set (vacancy_chunks db). \<exists>d.
           c_vacancy_id c = it_vacancy_id it \<and> c_chunk_no c = ev_chunk_no ev \<and>
           c_dist c = Some d \<and> ev_dist ev = d \<and>
           ev_kw_sim ev = fst (used_cols db kw_weight c d) \<and>
           ev_score ev = snd (used_cols db kw_weight c d) \<and>
           ev_text ev = format_text rt (extract_query_keywords rt q 12) mq hl (c_text c)"
proof -
  from s i obtain sc tops rows where
    sc: "scored pl (used_cols db kw_weight) db candidates = Inr sc"
    and tv: "top_vacs pl (ranked pl sc) k = Inr tops"
    and rows: "rows = final_select pl (ranked pl sc) tops per_vac"
    and v: "it_vacancy_id it \<in> r_vacancy_id ` set rows"
    and it: "it = format_item rt (extract_query_keywords rt q 12) mq hl
            (the (grouped rows (it_vacancy_id it)))"
    by (rule search_item)
  let ?v = "it_vacancy_id it"
  let ?kws = "extract_query_keywords rt q 12"
  have "it_evidence it = map (\<lambda>ev. ev\<lparr>ev_text := format_text rt ?kws mq hl (ev_text ev)\<rparr>)
          (map ev_of (filter (\<lambda>r. r_vacancy_id r = ?v) rows))"
    by (subst it) (simp add: format_item_def grouped_the(2)[OF v])
  with e obtain r where r: "r \<in> set rows" "r_vacancy_id r = ?v"
    and ev: "ev = (ev_of r)\<lparr>ev_text := format_text rt ?kws mq hl (ev_text (ev_of r))\<rparr>"
    by auto
  from r(1) final_rows_facts(1)[OF sc tv rows] have "r \<in> set (ranked pl sc)" by auto
  from ranked_source[OF this] obtain x where
    x: "x \<in> set sc" and rx: "r = extend_row x (r_rn r) (r_best_score r)" by blast
  from x scored_subset[OF sc] have "x \<in> set (scored_select (used_cols db kw_weight) db)" by auto
  then obtain c vv d where c: "c \<in> set (vacancy_chunks db)" "c_dist c = Some d"
    and xe: "x = \<lparr>r_vacancy_id = c_vacancy_id c, r_meta = vv, r_chunk_no = c_chunk_no c,
             r_text = c_text c, r_dist = d, r_kw_sim = fst (used_cols db kw_weight c d),
             r_score = snd (used_cols db kw_weight c d)\<rparr>"
    by (auto simp: scored_select_mem)
  have fields: "r_vacancy_id r = c_vacancy_id c" "r_chunk_no r = c_chunk_no c"
    "r_text r = c_text c" "r_dist r = d" "r_kw_sim r = fst (used_cols db kw_weight c d)"
    "r_score r = snd (used_cols db kw_weight c d)"
  proof -
    have a: "r_vacancy_id r = r_vacancy_id x" "r_chunk_no r = r_chunk_no x"
      "r_text r = r_text x" "r_dist r = r_dist x" "r_kw_sim r = r_kw_sim x"
      "r_score r = r_score x"
      by (metis rx extend_row_simps(1), metis rx extend_row_simps(3),
          metis rx extend_row_simps(4), metis rx extend_row_simps(5),
          metis rx extend_row_simps(6), metis rx extend_row_simps(7))
    show "r_vacancy_id r = c_vacancy_id c" "r_chunk_no r = c_chunk_no c"
      "r_text r = c_text c" "r_dist r = d" "r_kw_sim r = fst (used_cols db kw_weight c d)"
      "r_score r = snd (used_cols db kw_weight c d)"
      unfolding a by (simp_all add: xe)
  qed
  show ?thesis
    by (rule bexI[OF _ c(1)], rule exI[of _ d]) (simp add: ev ev_of_def fields r(2)[symmetric] c(2))
qed







section \<open>Properties of highlighting\<close>






















section \<open>Evaluation of the examples\<close>

lemmas retrieval_defs =
  retrieve_vacancies_def has_pg_trgm_def SQL_V2_WITH_TRGM_def SQL_V2_NO_TRGM_def sql_v2_def
  in_bigint_def ranked_side_def
  scored_def scored_select_def limit_node_def ranked_def window_partition_def
  number_partition_def extend_row_def top_vacs_def final_select_def add_row_def Let_def
  with_trgm_cols_def no_trgm_cols_def scenario_db_def tie_db_def vacancy_named_def

lemmas text_defs =
  format_item_def format_text_def normalize_ws_def strip_def highlight_def sorted_keywords_def
  extract_query_keywords_def py_lower_def most_common_def token_char_def is_space_def
  ascii_lower_def ustr_def rt_ascii_def match_at_def boundary_def word_at_def next_char_def
  last_char_def is_word_def ieq_def slice_to_def RU_STOP_def EN_STOP_def

lemmas example_defs =
  scenario_plain_resp_def scenario_hybrid_resp_def scenario_item_A_def scenario_item_B_def
  scenario_ev_A0_def scenario_hybrid_item_A_def

lemma scenario_plain_eval:
  assumes "\<not> (trgm \<and> 0 < w)"
  shows "search rt_ascii pl_stable (scenario_db trgm) (ustr ''go'') 2 2 250 w 800 False =
           Inr (scenario_plain_resp (if trgm then w else 0))"
  using assms
  by (simp add: search_def retrieval_defs order_by_def pl_stable_def text_defs example_defs)

lemma scenario_hybrid_eval:
  "search rt_ascii pl_stable (scenario_db True) (ustr ''go'') 2 2 250 (1 / 2) 800 False =
     Inr scenario_hybrid_resp"
  by (simp add: search_def retrieval_defs order_by_def pl_stable_def text_defs example_defs)


lemma scenario_rows:
  "sql_v2 pl no_trgm_cols (scenario_db trgm) 250 2 1 =
     Inr [\<lparr>r_vacancy_id = 2, r_meta = vacancy_named ''B'', r_chunk_no = 0,
            r_text = ustr ''Go developer'', r_dist = 5 / 100, r_kw_sim = 0, r_score = 5 / 100,
            r_rn = 1, r_best_score = 5 / 100\<rparr>,
          \<lparr>r_vacancy_id = 1, r_meta = vacancy_named ''A'', r_chunk_no = 0,
            r_text = ustr ''Python  developer'', r_dist = 10 / 100, r_kw_sim = 0,
            r_score = 10 / 100, r_rn = 1, r_best_score = 10 / 100\<rparr>]"
  by (cases "join_first pl") (simp_all add: retrieval_defs order_by_distinct_keys)


section \<open>The claims\<close>

text \<open>
  Claim C1. For every returned fragment, when the weight given by the caller is 0 or the
  lexical signal is unavailable (\<open>pg_trgm\<close> absent), the combined score reported for the
  fragment equals its semantic distance exactly, and its lexical similarity is reported as
  0, present in the entry. The fragment is a row of \<open>vacancy_chunks\<close> with that distance.
\<close>

theorem distance_only_when_weight_zero_or_no_trgm:
  assumes "kw_weight = 0 \<or> \<not> pg_trgm db"
    and "search rt pl db q k per_vac candidates kw_weight max_quote do_highlight = Inr resp"
    and "it \<in> set (resp_results resp)"
    and "ev \<in> set (it_evidence it)"
  shows "ev_score ev = ev_dist ev \<and> ev_kw_sim ev = 0 \<and>
         (\<exists>c \<in> set (vacancy_chunks db).
            c_vacancy_id c = it_vacancy_id it \<and> c_chunk_no c = ev_chunk_no ev \<and>
            c_dist c = Some (ev_dist ev))"
proof -
  from assms(1) have u: "used_cols db kw_weight = no_trgm_cols"
    by (auto simp: used_cols_def has_pg_trgm_def)
  from search_evidence_source[OF assms(2-4)] show ?thesis
    unfolding u by (auto simp: no_trgm_cols_def)
qed

text \<open>The scenario database with \<open>pg_trgm\<close> present and weight 0: the first evidence entry of
  vacancy A.\<close>

theorem distance_only_when_weight_zero_or_no_trgm_witness:
  "search rt_ascii pl_stable (scenario_db True) (ustr ''go'') 2 2 250 0 800 False
     = Inr (scenario_plain_resp 0) \<and>
   scenario_item_A \<in> set (resp_results (scenario_plain_resp 0)) \<and>
   scenario_ev_A0 \<in> set (it_evidence scenario_item_A) \<and>
   ev_score scenario_ev_A0 = ev_dist scenario_ev_A0 \<and> ev_kw_sim scenario_ev_A0 = 0 \<and>
   (\<exists>c \<in> set (vacancy_chunks (scenario_db True)).
      c_vacancy_id c = it_vacancy_id scenario_item_A \<and>
      c_chunk_no c = ev_chunk_no scenario_ev_A0 \<and>
      c_dist c = Some (ev_dist scenario_ev_A0))"
proof -
  have h1: "(0::real) = 0 \<or> \<not> pg_trgm (scenario_db True)" by simp
  have h2: "search rt_ascii pl_stable (scenario_db True) (ustr ''go'') 2 2 250 0 800 False
              = Inr (scenario_plain_resp 0)"
    using scenario_plain_eval[of True 0] by simp
  have h3: "scenario_item_A \<in> set (resp_results (scenario_plain_resp 0))"
    by (simp add: scenario_plain_resp_def)
  have h4: "scenario_ev_A0 \<in> set (it_evidence scenario_item_A)"
    by (simp add: scenario_item_A_def)
  from distance_only_when_weight_zero_or_no_trgm[OF h1 h2 h3 h4] h2 h3 h4
  show ?thesis by blast
qed

text \<open>
  Claim C2. For every call in which the lexical index is unavailable, whatever weight the
  caller gave, the effective weight is 0: the response reports \<open>kw_weight_used = 0\<close> and
  \<open>hybrid_used = false\<close>, it is the response of the same call with weight 0, and every
  fragment is scored by its distance alone.
\<close>

theorem no_trgm_forces_weight_zero:
  assumes "\<not> pg_trgm db"
    and "search rt pl db q k per_vac candidates kw_weight max_quote do_highlight = Inr resp"
  shows "resp_kw_weight_used resp = 0 \<and> \<not> resp_hybrid_used resp \<and>
         search rt pl db q k per_vac candidates 0 max_quote do_highlight = Inr resp \<and>
         (\<forall>it \<in> set (resp_results resp). \<forall>ev \<in> set (it_evidence it).
            ev_score ev = ev_dist ev \<and> ev_kw_sim ev = 0)"
proof -
  from assms(1) have u: "used_cols db kw_weight = no_trgm_cols"
    by (simp add: used_cols_def has_pg_trgm_def)
  from assms(1)
  have "retrieve_vacancies pl db k per_vac candidates kw_weight
          = retrieve_vacancies pl db k per_vac candidates 0"
    by (simp add: retrieve_vacancies_def has_pg_trgm_def)
  then have same: "search rt pl db q k per_vac candidates 0 max_quote do_highlight = Inr resp"
    using assms(2) by (simp add: search_def)
  from assms(2) have meta: "resp_kw_weight_used resp = 0" "\<not> resp_hybrid_used resp"
    by (rule search_char, simp add: assms(1))+
  have "ev_score ev = ev_dist ev \<and> ev_kw_sim ev = 0"
    if "it \<in> set (resp_results resp)" "ev \<in> set (it_evidence it)" for it ev
    using search_evidence_source[OF assms(2) that] unfolding u
    by (auto simp: no_trgm_cols_def)
  with meta same show ?thesis by blast
qed

text \<open>The scenario database without \<open>pg_trgm\<close>, called with weight \<open>1/2\<close>.\<close>

theorem no_trgm_forces_weight_zero_witness:
  "\<not> pg_trgm (scenario_db False) \<and>
   search rt_ascii pl_stable (scenario_db False) (ustr ''go'') 2 2 250 (1 / 2) 800 False
     = Inr (scenario_plain_resp 0) \<and>
   resp_kw_weight_used (scenario_plain_resp 0) = 0 \<and>
   \<not> resp_hybrid_used (scenario_plain_resp 0) \<and>
   search rt_ascii pl_stable (scenario_db False) (ustr ''go'') 2 2 250 0 800 False
     = Inr (scenario_plain_resp 0) \<and>
   map (\<lambda>it. map (\<lambda>ev. (ev_score ev, ev_dist ev, ev_kw_sim ev)) (it_evidence it))
       (resp_results (scenario_plain_resp 0))
     = [[(1 / 20, 1 / 20, 0)], [(1 / 10, 1 / 10, 0), (3 / 10, 3 / 10, 0)]]"
proof -
  have h1: "\<not> pg_trgm (scenario_db False)" by (simp add: scenario_db_def)
  have h2: "search rt_ascii pl_stable (scenario_db False) (ustr ''go'') 2 2 250 (1 / 2) 800 False
              = Inr (scenario_plain_resp 0)"
    using scenario_plain_eval[of False "1 / 2"] by simp
  from no_trgm_forces_weight_zero[OF h1 h2] h1 h2 show ?thesis
    by (simp add: example_defs)
qed

text \<open>
  Claim C3. For every call, the returned result list contains each vacancy id at most once,
  also when several fragments of one vacancy were candidates.
\<close>

theorem result_ids_unique:
  assumes "search rt pl db q k per_vac candidates kw_weight max_quote do_highlight = Inr resp"
  shows "distinct (map it_vacancy_id (resp_results resp))"
proof -
  from assms obtain rows where
    res: "resp_results resp =
       map (\<lambda>v. format_item rt (extract_query_keywords rt q 12) max_quote do_highlight (the (grouped rows v)))
           (unique_seen {} (map r_vacancy_id rows))"
    by (rule search_char)
  have "map it_vacancy_id (resp_results resp) = unique_seen {} (map r_vacancy_id rows)"
    unfolding res map_map comp_def
    by (rule map_idI) (simp add: unique_seen_set grouped_the(1))
  then show ?thesis by (simp add: unique_seen_distinct)
qed

text \<open>In the scenario database vacancy A has two candidate fragments and appears once.\<close>

theorem result_ids_unique_witness:
  "search rt_ascii pl_stable (scenario_db True) (ustr ''go'') 2 2 250 (1 / 2) 800 False
     = Inr scenario_hybrid_resp \<and>
   map it_vacancy_id (resp_results scenario_hybrid_resp) = [1, 2] \<and>
   distinct (map it_vacancy_id (resp_results scenario_hybrid_resp))"
  using result_ids_unique[OF scenario_hybrid_eval] scenario_hybrid_eval
  by (simp add: example_defs)





text \<open>
  Claim C5. For every vacancy in a result, its evidence fragments are ordered by their own
  combined score ascending and number at most \<open>per_vac\<close>, and the reported aggregate score
  is the minimum combined score among the candidate fragments of that vacancy (the rows of
  \<open>scored\<close> with its id).
\<close>

theorem evidence_sorted_capped_and_best_is_min:
  assumes "search rt pl db q k per_vac candidates kw_weight max_quote do_highlight = Inr resp"
    and "it \<in> set (resp_results resp)"
  shows "sorted (map ev_score (it_evidence it)) \<and>
         int (length (it_evidence it)) \<le> per_vac \<and>
         (\<exists>sc. scored pl (used_cols db kw_weight) db candidates = Inr sc \<and>
            it_best_score it = Min (r_score ` {x \<in> set sc. r_vacancy_id x = it_vacancy_id it}))"
  using search_evidence_facts(1,2,4)[OF assms] by blast

text \<open>Vacancy A of the scenario with weight \<open>1/2\<close>: two evidence fragments with scores
  \<open>-3/20\<close> and \<open>3/10\<close>, at most \<open>per_vac = 2\<close>, aggregate score \<open>-3/20\<close>.\<close>

theorem evidence_sorted_capped_and_best_is_min_witness:
  "search rt_ascii pl_stable (scenario_db True) (ustr ''go'') 2 2 250 (1 / 2) 800 False
     = Inr scenario_hybrid_resp \<and>
   scenario_hybrid_item_A \<in> set (resp_results scenario_hybrid_resp) \<and>
   map ev_score (it_evidence scenario_hybrid_item_A) = [- 3 / 20, 3 / 10] \<and>
   sorted (map ev_score (it_evidence scenario_hybrid_item_A)) \<and>
   int (length (it_evidence scenario_hybrid_item_A)) \<le> 2 \<and>
   (\<exists>sc. scored pl_stable (used_cols (scenario_db True) (1 / 2)) (scenario_db True) 250 = Inr sc \<and>
      it_best_score scenario_hybrid_item_A
        = Min (r_score ` {x \<in> set sc. r_vacancy_id x = it_vacancy_id scenario_hybrid_item_A}))"
proof -
  have h: "scenario_hybrid_item_A \<in> set (resp_results scenario_hybrid_resp)"
    by (simp add: scenario_hybrid_resp_def)
  have e: "map ev_score (it_evidence scenario_hybrid_item_A) = [- 3 / 20, 3 / 10]"
    by (simp add: scenario_hybrid_item_A_def)
  from evidence_sorted_capped_and_best_is_min[OF scenario_hybrid_eval h] scenario_hybrid_eval h e
  show ?thesis by blast
qed

text \<open>
  Claim C6. With two candidate fragments of vacancy A at distances 0.10 and 0.30, one
  fragment of vacancy B at distance 0.05, \<open>k = 2\<close>, \<open>per_vac = 1\<close> and weight 0, the call
  returns the vacancies in the order B, A, and the evidence of A is its fragment at distance
  0.10 alone. This holds with and without \<open>pg_trgm\<close>, for every executor, query and
  formatting option.
\<close>

theorem scenario_returns_B_then_A:
  "\<exists>resp. search rt pl (scenario_db trgm) q 2 1 250 0 max_quote do_highlight = Inr resp \<and>
     map it_vacancy_id (resp_results resp) = [2, 1] \<and>
     map (\<lambda>it. map ev_dist (it_evidence it)) (resp_results resp) = [[5 / 100], [10 / 100]]"
  by (simp add: search_def retrieve_vacancies_def has_pg_trgm_def Let_def SQL_V2_NO_TRGM_def
      scenario_rows add_row_def format_item_def)

text \<open>
  Claim C7, amended. For the text \<open>Spring Boot developer\<close>, technology-term extraction
  yields \<open>spring\<close> and \<open>spring boot\<close>, each exactly once, in the order of the pattern list
  (both patterns are in the list and both match). Highlighting with the keywords \<open>spring\<close>
  and \<open>spring boot\<close> applies the longer keyword first, so \<open>Spring Boot\<close> is wrapped as one
  unit; the pass for \<open>spring\<close> then wraps the inner \<open>Spring\<close> as well.
\<close>

theorem spring_boot_terms_and_highlight:
  "extract_tech_terms rt (ustr ''Spring Boot developer'') = [ustr ''spring'', ustr ''spring boot''] \<and>
   highlight rt (ustr ''Spring Boot developer'') [ustr ''spring'', ustr ''spring boot'']
     = ustr ''[[Spring] Boot] developer''"
proof -
  have "extract_tech_terms rt (ustr ''Spring Boot developer'')
          = [ustr ''spring'', ustr ''spring boot'']"
    by (simp add: extract_tech_terms_def py_lower_def ustr_def ascii_lower_def TECH_PATTERNS_def
        match_at_def boundary_def word_at_def next_char_def last_char_def is_word_def ieq_def)
  moreover have "highlight rt (ustr ''Spring Boot developer'') [ustr ''spring'', ustr ''spring boot'']
          = ustr ''[[Spring] Boot] developer''"
    by (simp add: highlight_def sorted_keywords_def ustr_def ascii_lower_def match_at_def
        boundary_def word_at_def next_char_def last_char_def is_word_def ieq_def)
  ultimately show ?thesis by simp
qed

text \<open>
  Claim C7 as stated fails: the extraction does yield a separate \<open>spring\<close>, and the
  highlighted text wraps the inner \<open>Spring\<close> a second time.
\<close>

theorem spring_is_a_separate_hit:
  "extract_tech_terms rt_ascii (ustr ''Spring Boot developer'')
     = [ustr ''spring'', ustr ''spring boot''] \<and>
   highlight rt_ascii (ustr ''Spring Boot developer'') [ustr ''spring'', ustr ''spring boot'']
     = ustr ''[[Spring] Boot] developer''"
proof -
  have "extract_tech_terms rt_ascii (ustr ''Spring Boot developer'')
          = [ustr ''spring'', ustr ''spring boot'']"
    by (simp add: extract_tech_terms_def py_lower_def ustr_def ascii_lower_def TECH_PATTERNS_def
        match_at_def boundary_def word_at_def next_char_def last_char_def is_word_def ieq_def)
  moreover have "highlight rt_ascii (ustr ''Spring Boot developer'')
            [ustr ''spring'', ustr ''spring boot''] = ustr ''[[Spring] Boot] developer''"
    by (simp add: highlight_def sorted_keywords_def ustr_def ascii_lower_def match_at_def
        boundary_def word_at_def next_char_def last_char_def is_word_def ieq_def)
  ultimately show ?thesis by simp
qed









end
